theory Spec2Isabelle
  imports Main "HOL-Library.Char_ord" "HOL-Library.List_Lexorder" "HOL-Library.AList"
    "HOL-Library.Multiset"
begin

section \<open>Paths, file trees and the Python library functions the script calls\<close>

text \<open>
  A path is the list of its components, as \<open>pathlib\<close> keeps them; \<open>Path(".")\<close> is the
  empty list. Paths compare as lists of strings and strings compare by character code,
  which is how Python orders \<open>PosixPath\<close> objects and \<open>str\<close>.
  File names and file contents are 8-bit strings.
\<close>

type_synonym path = "string list"

datatype node = File string | Dir "(string \<times> node) list"

datatype error =
    ValueError string
  | IndexError
  | FileExistsError
  | FileNotFoundError
  | NotADirectoryError
  | IsADirectoryError
  | UnicodeDecodeError

datatype level = DEBUG | INFO | WARNING | CRITICAL

type_synonym logrec = "level \<times> string"

text \<open>
  The values a caller can pass as \<open>timeouts\<close>; \<open>PInt\<close> are the values of type \<open>int\<close>
  (the command line yields only these; \<open>bool\<close>, which Python also accepts as \<open>int\<close>, is
  left out).
\<close>

datatype pyval = PInt int | PStr string | PNone | PList "pyval list"

text \<open>\<open>Path.name\<close>: the last component, the empty string for \<open>Path(".")\<close>.\<close>

definition path_name :: "path \<Rightarrow> string" where
  "path_name p = (if p = [] then [] else last p)"

text \<open>\<open>p / s\<close> for a single name \<open>s\<close>: \<open>pathlib\<close> drops an empty or \<open>.\<close> component.\<close>

definition path_join :: "path \<Rightarrow> string \<Rightarrow> path" where
  "path_join p s = (if s = [] \<or> s = ''.'' then p else p @ [s])"

fun join_str :: "string \<Rightarrow> string list \<Rightarrow> string" where
  "join_str sep [] = []"
| "join_str sep [x] = x"
| "join_str sep (x # y # ys) = x @ sep @ join_str sep (y # ys)"

text \<open>\<open>str(p)\<close>.\<close>

definition str_path :: "path \<Rightarrow> string" where
  "str_path p = (if p = [] then ''.'' else join_str ''/'' p)"

text \<open>\<open>str.rfind\<close> for one character: the index of its last occurrence.\<close>

fun rfind :: "char \<Rightarrow> string \<Rightarrow> nat option" where
  "rfind c [] = None"
| "rfind c (x # xs) =
     (case rfind c xs of
        Some i \<Rightarrow> Some (Suc i)
      | None \<Rightarrow> if x = c then Some 0 else None)"

text \<open>
  \<open>PurePath.stem\<close> of a file name: the name up to its last dot, unless that dot is the
  first or the last character (\<open>0 < i < len(name) - 1\<close>).
\<close>

definition stem :: "string \<Rightarrow> string" where
  "stem name =
     (case rfind (CHR ''.'') name of
        None \<Rightarrow> name
      | Some i \<Rightarrow> if 0 < i \<and> Suc i < length name then take i name else name)"

definition endswith :: "string \<Rightarrow> string \<Rightarrow> bool" where
  "endswith s suf \<longleftrightarrow> length suf \<le> length s \<and> drop (length s - length suf) s = suf"

text \<open>
  Path resolution in a tree without symbolic links: \<open>..\<close> steps back to the parent
  (the root is its own parent), any other name selects the entry of that name.
\<close>

fun walk :: "node list \<Rightarrow> node \<Rightarrow> path \<Rightarrow> node option" where
  "walk up n [] = Some n"
| "walk up (File c) (x # xs) = None"
| "walk up (Dir es) (x # xs) =
     (if x = ''..'' then
        (case up of [] \<Rightarrow> walk [] (Dir es) xs | a # up' \<Rightarrow> walk up' a xs)
      else
        (case map_of es x of
           None \<Rightarrow> None
         | Some ch \<Rightarrow> walk (Dir es # up) ch xs))"

definition lookup :: "node \<Rightarrow> path \<Rightarrow> node option" where
  "lookup fs p = walk [] fs p"

definition is_dir :: "node \<Rightarrow> path \<Rightarrow> bool" where
  "is_dir fs p = (case lookup fs p of Some (Dir es) \<Rightarrow> True | _ \<Rightarrow> False)"

definition is_file :: "node \<Rightarrow> path \<Rightarrow> bool" where
  "is_file fs p = (case lookup fs p of Some (File c) \<Rightarrow> True | _ \<Rightarrow> False)"

text \<open>The names in a directory, in the order the file system enumerates them.\<close>

definition listdir :: "node \<Rightarrow> path \<Rightarrow> string list" where
  "listdir fs p = (case lookup fs p of Some (Dir es) \<Rightarrow> remdups (map fst es) | _ \<Rightarrow> [])"

text \<open>\<open>Path(".").iterdir()\<close> and \<open>d.glob("*" + suf)\<close>.\<close>

definition iterdir :: "node \<Rightarrow> path \<Rightarrow> path list" where
  "iterdir fs p = map (path_join p) (listdir fs p)"

definition glob_star :: "node \<Rightarrow> path \<Rightarrow> string \<Rightarrow> path list" where
  "glob_star fs d suf = map (path_join d) (filter (\<lambda>n. endswith n suf) (listdir fs d))"

text \<open>Lexical removal of \<open>..\<close> from a path whose named directories all exist.\<close>

definition resolve :: "path \<Rightarrow> path" where
  "resolve p = rev (fold (\<lambda>c acc. if c = ''..'' then tl acc else c # acc) p [])"

text \<open>Replace or create the node at a path below an existing directory.\<close>

fun put :: "node \<Rightarrow> path \<Rightarrow> node \<Rightarrow> node" where
  "put t [] new = new"
| "put (File c) (x # xs) new = File c"
| "put (Dir es) (x # xs) new =
     (case map_of es x of
        None \<Rightarrow> if xs = [] then Dir (es @ [(x, new)]) else Dir es
      | Some ch \<Rightarrow> Dir (AList.update x (put ch xs new) es))"

text \<open>The node at a path, every component read as a name (no \<open>..\<close>).\<close>

fun get :: "node \<Rightarrow> path \<Rightarrow> node option" where
  "get n [] = Some n"
| "get (File c) (x # xs) = None"
| "get (Dir es) (x # xs) = (case map_of es x of None \<Rightarrow> None | Some ch \<Rightarrow> get ch xs)"

text \<open>\<open>Path.mkdir\<close> without \<open>parents\<close> or \<open>exist_ok\<close>.\<close>

definition mkdir :: "node \<Rightarrow> path \<Rightarrow> error + node" where
  "mkdir t p =
     (if lookup t p \<noteq> None then Inl FileExistsError
      else case lookup t (butlast (resolve p)) of
             None \<Rightarrow> Inl FileNotFoundError
           | Some (File c) \<Rightarrow> Inl NotADirectoryError
           | Some (Dir es) \<Rightarrow> Inr (put t (resolve p) (Dir [])))"

text \<open>\<open>open(p, "wb")\<close> followed by one \<open>write\<close>.\<close>

definition write_file :: "node \<Rightarrow> path \<Rightarrow> string \<Rightarrow> error + node" where
  "write_file t p c =
     (case lookup t p of
        Some (Dir es) \<Rightarrow> Inl IsADirectoryError
      | _ \<Rightarrow>
         (case lookup t (butlast (resolve p)) of
            None \<Rightarrow> Inl FileNotFoundError
          | Some (File c') \<Rightarrow> Inl NotADirectoryError
          | Some (Dir es) \<Rightarrow> Inr (put t (resolve p) (File c))))"

text \<open>
  \<open>shutil.copy(src, dst)\<close>, reading \<open>src\<close> in the tree \<open>fs\<close> and writing into the tree
  \<open>t\<close>: a destination that is a directory receives the file under the source's name.
\<close>

definition shutil_copy :: "node \<Rightarrow> path \<Rightarrow> node \<Rightarrow> path \<Rightarrow> error + node" where
  "shutil_copy fs src t dst =
     (case lookup fs src of
        None \<Rightarrow> Inl FileNotFoundError
      | Some (Dir es) \<Rightarrow> Inl IsADirectoryError
      | Some (File c) \<Rightarrow>
          write_file t (if is_dir t dst then path_join dst (path_name src) else dst) c)"

text \<open>
  A member of a tar archive: its name, and its contents when it is a regular file.
  \<open>TarFile.add(name, arcname)\<close> adds the node and, for a directory, its entries in
  sorted order, recursively.
\<close>

type_synonym member = "path \<times> string option"

fun tar_add :: "path \<Rightarrow> node \<Rightarrow> member list" where
  "tar_add arc (File c) = [(arc, Some c)]"
| "tar_add arc (Dir es) =
     (arc, None) # concat (map (\<lambda>(n, ch). tar_add (arc @ [n]) ch) (sort_key fst es))"

text \<open>\<open>str(i)\<close> for an integer.\<close>

definition digit_char :: "nat \<Rightarrow> char" where
  "digit_char d = ''0123456789'' ! d"

function str_nat :: "nat \<Rightarrow> string" where
  "str_nat n = (if n < 10 then [digit_char n] else str_nat (n div 10) @ [digit_char (n mod 10)])"
  by pat_completeness auto
termination
  by (relation "measure id") auto

declare str_nat.simps [simp del]

definition str_int :: "int \<Rightarrow> string" where
  "str_int i = (if i < 0 then CHR ''-'' # str_nat (nat (- i)) else str_nat (nat i))"

text \<open>Python's \<open>sub in s\<close> on strings: \<open>sub\<close> occurs in \<open>s\<close> as a contiguous substring.\<close>

fun str_contains :: "string \<Rightarrow> string \<Rightarrow> bool" where
  "str_contains [] sub = (sub = [])"
| "str_contains (c # cs) sub = (take (length sub) (c # cs) = sub \<or> str_contains cs sub)"

definition ascii_uppercase :: string where
  "ascii_uppercase = ''ABCDEFGHIJKLMNOPQRSTUVWXYZ''"


section \<open>The manifest tree\<close>

text \<open>
  An \<open>ElementTree\<close> element: tag, attributes in insertion order, children.
  The script keeps references to the element it created last and goes on setting its
  attributes; here that element is the last child of its parent.
\<close>

datatype xml = Element string "(string \<times> string) list" "xml list"

definition SubElement :: "xml \<Rightarrow> string \<Rightarrow> xml" where
  "SubElement parent tag = (case parent of Element t a cs \<Rightarrow> Element t a (cs @ [Element tag [] []]))"

definition set_attr :: "string \<Rightarrow> string \<Rightarrow> xml \<Rightarrow> xml" where
  "set_attr k v e = (case e of Element t a cs \<Rightarrow> Element t (AList.update k v a) cs)"

definition in_last :: "(xml \<Rightarrow> xml) \<Rightarrow> xml \<Rightarrow> xml" where
  "in_last f e =
     (case e of Element t a cs \<Rightarrow> if cs = [] then e else Element t a (butlast cs @ [f (last cs)]))"

definition dq :: string where
  "dq = [CHR 0x22]"

definition sq :: string where
  "sq = [CHR 0x27]"

text \<open>
  \<open>ET.tostring(root, encoding="ISO-8859-1", xml_declaration=True)\<close>. The escaping of
  attribute values is the library's and is a parameter here.
\<close>

fun serialize_xml :: "(string \<Rightarrow> string) \<Rightarrow> xml \<Rightarrow> string" where
  "serialize_xml esc (Element t a cs) =
     ''<'' @ t @ concat (map (\<lambda>(k, v). '' '' @ k @ ''='' @ dq @ esc v @ dq) a) @
     (if cs = [] then '' />''
      else ''>'' @ concat (map (serialize_xml esc) cs) @ ''</'' @ t @ ''>'')"

definition xml_declaration :: string where
  "xml_declaration =
     ''<?xml version='' @ sq @ ''1.0'' @ sq @ '' encoding='' @ sq @ ''ISO-8859-1'' @ sq @ ''?>'' @ [CHR 0x0A]"

definition tostring :: "(string \<Rightarrow> string) \<Rightarrow> xml \<Rightarrow> string" where
  "tostring esc root = xml_declaration @ serialize_xml esc root"

text \<open>\<open>str.strip()\<close>.\<close>

definition is_space :: "char \<Rightarrow> bool" where
  "is_space c \<longleftrightarrow> c \<in> set [CHR '' '', CHR 0x09, CHR 0x0A, CHR 0x0B, CHR 0x0C, CHR 0x0D]"

definition py_strip :: "string \<Rightarrow> string" where
  "py_strip s = rev (dropWhile is_space (rev (dropWhile is_space s)))"

section \<open>The script\<close>

text \<open>
  What the run takes from its environment: the library's escaping of XML attribute
  values, the result of reading a file back in text mode in the locale's encoding
  (\<open>None\<close> when the bytes do not decode), and the name of the temporary directory.
\<close>

record env =
  escape_attrib :: "string \<Rightarrow> string"
  readlines :: "string \<Rightarrow> string list option"
  tmpdir :: string

text \<open>
  The output archive file: absent, opened for writing and holding the members added so
  far, or closed.
\<close>

datatype archive_status = Absent | Opened "member list" | Closed "member list"

text \<open>
  The state a run changes: the archive file, the temporary staging directory (\<open>None\<close>
  when it does not exist) and the log records emitted. The problem directories are read
  from a tree \<open>fs\<close> that the run does not write to: the archive file and the temporary
  directory lie outside the files it reads. Opening the archive for writing and creating
  the temporary directory are taken to succeed.
\<close>

record state =
  archivefile :: archive_status
  staging :: "node option"
  log :: "logrec list"

text \<open>Inside the \<open>with\<close> block: the staging tree, the open archive, the manifest, the log.\<close>

record run =
  tmp :: node
  tar :: "member list"
  xmlproblems :: xml
  logs :: "logrec list"

definition logging :: "level \<Rightarrow> string \<Rightarrow> run \<Rightarrow> run" where
  "logging l m r = r\<lparr>logs := logs r @ [(l, m)]\<rparr>"

definition ignore_problem :: "string \<Rightarrow> path \<Rightarrow> run \<Rightarrow> run" where
  "ignore_problem msg p r =
     logging WARNING (''Ignoring problem '' @ str_path p) (logging WARNING msg r)"

text \<open>Lines 51 to 68: the timeout of every problem, or the error raised.\<close>

fun ints_of :: "pyval list \<Rightarrow> int list option" where
  "ints_of [] = Some []"
| "ints_of (PInt i # vs) = map_option ((#) i) (ints_of vs)"
| "ints_of (v # vs) = None"

definition resolve_timeouts :: "pyval \<Rightarrow> nat \<Rightarrow> (error + int list) \<times> logrec list" where
  "resolve_timeouts timeouts n =
     (case timeouts of
        PInt t \<Rightarrow>
          (Inr (replicate n t),
           [(INFO, ''timeouts is a single value, using as default for all problems'')])
      | PList vs \<Rightarrow>
          (case ints_of vs of
             None \<Rightarrow>
               (Inl (ValueError ''timeouts must be a list of ints''),
                [(CRITICAL, ''timeouts must be a list of ints'')])
           | Some ts \<Rightarrow>
               if length ts \<noteq> n then
                 if length ts = 1 then
                   (Inr (replicate n (ts ! 0)),
                    [(INFO, ''timeouts is a single value, using as default for all problems'')])
                 else if ts = [] then
                   (Inl IndexError,
                    [(WARNING, ''len(timeouts) != len(problems), replicating last timeout'')])
                 else
                   (Inr (ts @ replicate (n - length ts) (last ts)),
                    [(WARNING, ''len(timeouts) != len(problems), replicating last timeout'')])
               else (Inr ts, []))
      | _ \<Rightarrow>
          (Inl (ValueError ''timeouts must be an int or a list''),
           [(CRITICAL, ''timeouts must be an int or a list'')]))"

text \<open>Line 86: \<open>pname not in string.ascii_uppercase\<close> is false.\<close>

definition name_ok :: "string \<Rightarrow> bool" where
  "name_ok pname \<longleftrightarrow> str_contains ascii_uppercase pname"

text \<open>Lines 103 to 117: the sorted test files and the comparison of their stems.\<close>

definition sorted_glob :: "node \<Rightarrow> path \<Rightarrow> string \<Rightarrow> path list" where
  "sorted_glob fs testsdir suf = sort (glob_star fs testsdir suf)"

definition stems :: "path list \<Rightarrow> string list" where
  "stems ps = map (\<lambda>x. stem (path_name x)) ps"

definition stems_match :: "node \<Rightarrow> path \<Rightarrow> bool" where
  "stems_match fs testsdir \<longleftrightarrow>
     stems (sorted_glob fs testsdir ''.in'') = stems (sorted_glob fs testsdir ''.out'')"

text \<open>\<open>archivefile.add(name, arcname=...)\<close> for a node of the staging tree.\<close>

definition archive_add :: "node \<Rightarrow> path \<Rightarrow> path \<Rightarrow> error + member list" where
  "archive_add t name arcname =
     (case lookup t name of None \<Rightarrow> Inl FileNotFoundError | Some n \<Rightarrow> Inr (tar_add arcname n))"

text \<open>Lines 139 to 147: the loop over the test cases of one problem.\<close>

definition new_test :: "string \<Rightarrow> path \<Rightarrow> path \<Rightarrow> string \<Rightarrow> xml \<Rightarrow> xml" where
  "new_test pname inp out name xmltests =
     in_last (\<lambda>xmltest.
        set_attr ''output'' (path_name out)
          (set_attr ''input'' (path_name inp)
            (set_attr ''xml:id'' (pname @ ''.tests.'' @ name) xmltest)))
       (SubElement xmltests ''Test'')"

fun stage_tests ::
  "node \<Rightarrow> string \<Rightarrow> path \<Rightarrow> (path \<times> path \<times> string) list \<Rightarrow> run \<Rightarrow> error option \<times> run" where
  "stage_tests fs pname testsdir [] r = (None, r)"
| "stage_tests fs pname testsdir ((inp, out, name) # rest) r =
     (let r1 = r\<lparr>xmlproblems := in_last (in_last (new_test pname inp out name)) (xmlproblems r)\<rparr>;
          testdir = path_join testsdir name
      in case mkdir (tmp r1) testdir of
           Inl e \<Rightarrow> (Some e, r1)
         | Inr t1 \<Rightarrow>
            (case shutil_copy fs inp t1 (path_join testdir (path_name inp)) of
               Inl e \<Rightarrow> (Some e, r1\<lparr>tmp := t1\<rparr>)
             | Inr t2 \<Rightarrow>
                (case shutil_copy fs out t2 (path_join testdir (path_name out)) of
                   Inl e \<Rightarrow> (Some e, r1\<lparr>tmp := t2\<rparr>)
                 | Inr t3 \<Rightarrow> stage_tests fs pname testsdir rest (r1\<lparr>tmp := t3\<rparr>))))"

text \<open>Lines 124 to 149: a problem that passed every check is staged and archived.\<close>

definition new_problem :: "string \<Rightarrow> int \<Rightarrow> xml \<Rightarrow> xml" where
  "new_problem pname t xmlproblems0 =
     in_last (\<lambda>xmlproblem.
        set_attr ''Timeout'' (str_int t)
          (set_attr ''Description'' ''description.html''
            (set_attr ''Title'' pname
              (set_attr ''Name'' pname
                (set_attr ''xml:id'' pname xmlproblem)))))
       (SubElement xmlproblems0 ''Problem'')"

definition new_tests :: "string \<Rightarrow> xml \<Rightarrow> xml" where
  "new_tests pname xmlproblem =
     in_last (set_attr ''xml:id'' (pname @ ''.tests'')) (SubElement xmlproblem ''Tests'')"

definition stage_problem ::
  "node \<Rightarrow> run \<Rightarrow> string \<Rightarrow> int \<Rightarrow> path \<Rightarrow> path list \<Rightarrow> path list \<Rightarrow> string list \<Rightarrow>
     error option \<times> run" where
  "stage_problem fs r pname t descriptionfile inputs outputs inputsstems =
     (let r1 = r\<lparr>xmlproblems := new_problem pname t (xmlproblems r)\<rparr>;
          problemdir = path_join [] pname
      in case mkdir (tmp r1) problemdir of
           Inl e \<Rightarrow> (Some e, r1)
         | Inr t1 \<Rightarrow>
            (case shutil_copy fs descriptionfile t1 (path_join problemdir ''description.html'') of
               Inl e \<Rightarrow> (Some e, r1\<lparr>tmp := t1\<rparr>)
             | Inr t2 \<Rightarrow>
                (let testsdir = path_join problemdir ''tests''
                 in case mkdir t2 testsdir of
                      Inl e \<Rightarrow> (Some e, r1\<lparr>tmp := t2\<rparr>)
                    | Inr t3 \<Rightarrow>
                       (let r2 = r1\<lparr>tmp := t3,
                                     xmlproblems := in_last (new_tests pname) (xmlproblems r1)\<rparr>
                        in case stage_tests fs pname testsdir
                                  (zip inputs (zip outputs inputsstems)) r2 of
                             (Some e, r3) \<Rightarrow> (Some e, r3)
                           | (None, r3) \<Rightarrow>
                              (case archive_add (tmp r3) problemdir [pname] of
                                 Inl e \<Rightarrow> (Some e, r3)
                               | Inr ms \<Rightarrow> (None, r3\<lparr>tar := tar r3 @ ms\<rparr>))))))"

text \<open>Lines 80 to 149: one iteration of the loop over the problems.\<close>

definition process_problem :: "node \<Rightarrow> run \<Rightarrow> path \<times> int \<Rightarrow> error option \<times> run" where
  "process_problem fs r pt =
     (case pt of (p, t) \<Rightarrow>
        if \<not> is_dir fs p then
          (None, ignore_problem (''Problem '' @ sq @ str_path p @ sq @ '' is not a directory'') p r)
        else
          let pname = path_name p in
          if \<not> name_ok pname then
            (None, ignore_problem
               (''Directory name '' @ sq @ pname @ sq @ '' is not an ascii uppercase letter'') p r)
          else
            let descriptionfile = path_join p ''description.html'' in
            if \<not> is_file fs descriptionfile then
              (None, ignore_problem
                 (''Missing file '' @ sq @ str_path descriptionfile @ sq) p r)
            else
              let testsdir = path_join p ''tests'' in
              if \<not> is_dir fs testsdir then
                (None, ignore_problem
                   (''Missing tests directory '' @ sq @ str_path testsdir @ sq) p r)
              else
                let inputs = sorted_glob fs testsdir ''.in'' in
                if length inputs = 0 then
                  (None, ignore_problem
                     (''Could not find inputs with '' @ sq @ str_path testsdir @ ''/*.in'' @ sq
                        @ '' pattern'') p r)
                else
                  let outputs = sorted_glob fs testsdir ''.out'' in
                  if length outputs = 0 then
                    (None, ignore_problem
                       (''Could not find outputs with '' @ sq @ str_path testsdir @ ''/*.out'' @ sq
                          @ '' pattern'') p r)
                  else
                    let inputsstems = stems inputs; outputsstems = stems outputs in
                    if inputsstems \<noteq> outputsstems then
                      (None,
                       logging WARNING (''Ignoring problem '' @ str_path p)
                         (logging DEBUG (''outputs: '' @ join_str '', '' outputsstems)
                           (logging DEBUG (''inputs: '' @ join_str '', '' inputsstems)
                             (logging WARNING ''Inputs and outputs filenames do not match'' r))))
                    else
                      stage_problem fs r pname t descriptionfile inputs outputs inputsstems)"

fun run_problems :: "node \<Rightarrow> (path \<times> int) list \<Rightarrow> run \<Rightarrow> error option \<times> run" where
  "run_problems fs [] r = (None, r)"
| "run_problems fs (pt # pts) r =
     (case process_problem fs r pt of
        (Some e, r') \<Rightarrow> (Some e, r')
      | (None, r') \<Rightarrow> run_problems fs pts r')"

text \<open>
  Lines 151 to 164: the manifest is written, read back for the debug log, added to the
  archive, and the archive is closed. The result says whether the archive was closed.
\<close>

definition write_manifest :: "env \<Rightarrow> run \<Rightarrow> error option \<times> run" where
  "write_manifest E r =
     (let xmlpath = path_join [] ''Content.xml''
      in case write_file (tmp r) xmlpath (tostring (escape_attrib E) (xmlproblems r)) of
           Inl e \<Rightarrow> (Some e, r)
         | Inr t1 \<Rightarrow>
            (let r1 = logging DEBUG
                        (''Using xmlfile: <_io.BufferedWriter name='' @ sq @ tmpdir E
                           @ ''/Content.xml'' @ sq @ ''>'') (r\<lparr>tmp := t1\<rparr>)
             in case lookup (tmp r1) xmlpath of
                  None \<Rightarrow> (Some FileNotFoundError, r1)
                | Some (Dir es) \<Rightarrow> (Some IsADirectoryError, r1)
                | Some (File c) \<Rightarrow>
                   (let r2 = logging DEBUG ''Content.xml contents BEGIN'' r1
                    in case readlines E c of
                         None \<Rightarrow> (Some UnicodeDecodeError, r2)
                       | Some ls \<Rightarrow>
                          (let r3 = logging DEBUG ''Content.xml contents END''
                                      (r2\<lparr>logs := logs r2 @ map (\<lambda>line. (DEBUG, py_strip line)) ls\<rparr>)
                           in case archive_add (tmp r3) xmlpath [''Content.xml''] of
                                Inl e \<Rightarrow> (Some e, r3)
                              | Inr ms \<Rightarrow> (None, r3\<lparr>tar := tar r3 @ ms\<rparr>)))))"

text \<open>Lines 74 to 164: the body of the \<open>with\<close> block.\<close>

definition staging_block :: "env \<Rightarrow> node \<Rightarrow> (path \<times> int) list \<Rightarrow> run \<Rightarrow> error option \<times> run" where
  "staging_block E fs pts r0 =
     (let r1 = logging DEBUG (''Using temporary directory: '' @ tmpdir E) r0;
          r2 = r1\<lparr>xmlproblems := set_attr ''Presents'' ''radio'' (Element ''Problems'' [] [])\<rparr>
      in case run_problems fs pts r2 of
           (Some e, r3) \<Rightarrow> (Some e, r3)
         | (None, r3) \<Rightarrow> write_manifest E r3)"

text \<open>Lines 45 to 48: the problem directories, sorted.\<close>

definition discover :: "node \<Rightarrow> path list option \<Rightarrow> path list" where
  "discover fs problems =
     sort (case problems of
             None \<Rightarrow> filter (is_dir fs) (iterdir fs [])
           | Some ps \<Rightarrow> ps)"

text \<open>
  Leaving the \<open>with tempfile.TemporaryDirectory()\<close> block, normally or by an exception,
  removes the temporary directory and everything in it.
\<close>

definition leave_with :: "state \<Rightarrow> state" where
  "leave_with st = st\<lparr>staging := None\<rparr>"

text \<open>
  \<open>build_archive\<close>. \<open>problems = None\<close> is the default argument. The result is the
  exception that left the function, if any, and the state afterwards.
\<close>

definition build_archive ::
  "env \<Rightarrow> node \<Rightarrow> path list option \<Rightarrow> pyval \<Rightarrow> state \<Rightarrow> error option \<times> state" where
  "build_archive E fs problems timeouts st =
     (let st1 = (case problems of
                   None \<Rightarrow> st\<lparr>log := log st @
                             [(INFO, ''Missing problem directories, using those in current path'')]\<rparr>
                 | Some ps \<Rightarrow> st);
          problems2 = discover fs problems;
          st2 = st1\<lparr>log := log st1 @
                  [(INFO, ''Using problem directories: '' @ join_str '', '' (map str_path problems2))]\<rparr>
      in case resolve_timeouts timeouts (length problems2) of
           (Inl e, ls) \<Rightarrow> (Some e, st2\<lparr>log := log st2 @ ls\<rparr>)
         | (Inr ts, ls) \<Rightarrow>
            (let st3 = st2\<lparr>log := log st2 @ ls @
                         [(INFO, ''Using timeouts: '' @ join_str '', '' (map str_int ts))]\<rparr>;
                 r0 = \<lparr>tmp = Dir [], tar = [], xmlproblems = Element ''Problems'' [] [],
                       logs = log st3\<rparr>
             in case staging_block E fs (zip problems2 ts) r0 of
                  (Some e, r) \<Rightarrow>
                    (Some e, leave_with
                       \<lparr>archivefile = Opened (tar r), staging = Some (tmp r), log = logs r\<rparr>)
                | (None, r) \<Rightarrow>
                    (None, leave_with
                       \<lparr>archivefile = Closed (tar r), staging = Some (tmp r), log = logs r\<rparr>)))"

section \<open>Notions used in the statements\<close>

text \<open>\<open>isinstance(v, int)\<close> and \<open>isinstance(v, list)\<close>.\<close>

fun isinstance_int :: "pyval \<Rightarrow> bool" where
  "isinstance_int (PInt i) = True"
| "isinstance_int v = False"

fun isinstance_list :: "pyval \<Rightarrow> bool" where
  "isinstance_list (PList vs) = True"
| "isinstance_list v = False"

text \<open>The seven checks of lines 80 to 122, all passed.\<close>

definition accepted :: "node \<Rightarrow> path \<Rightarrow> bool" where
  "accepted fs p \<longleftrightarrow>
     is_dir fs p \<and>
     name_ok (path_name p) \<and>
     is_file fs (path_join p ''description.html'') \<and>
     is_dir fs (path_join p ''tests'') \<and>
     sorted_glob fs (path_join p ''tests'') ''.in'' \<noteq> [] \<and>
     sorted_glob fs (path_join p ''tests'') ''.out'' \<noteq> [] \<and>
     stems_match fs (path_join p ''tests'')"

text \<open>The number that a string of decimal digits denotes.\<close>

definition decimal :: "string \<Rightarrow> nat" where
  "decimal s = foldl (\<lambda>a c. 10 * a + (of_char c - 48)) 0 s"

text \<open>The members of the archive file.\<close>

fun members :: "archive_status \<Rightarrow> member list" where
  "members Absent = []"
| "members (Opened ms) = ms"
| "members (Closed ms) = ms"

text \<open>
  The manifest as the specification describes it: one \<open>Problem\<close> element per surviving
  problem, in order, each nesting a \<open>Tests\<close> element with one \<open>Test\<close> element per test
  case. A test case is the triple of input file, output file and stem that line 139 zips.
\<close>

definition test_element :: "string \<Rightarrow> path \<times> path \<times> string \<Rightarrow> xml" where
  "test_element L tc =
     (case tc of (inp, out, name) \<Rightarrow>
        Element ''Test''
          [(''xml:id'', L @ ''.tests.'' @ name), (''input'', path_name inp), (''output'', path_name out)]
          [])"

definition problem_element :: "string \<Rightarrow> int \<Rightarrow> (path \<times> path \<times> string) list \<Rightarrow> xml" where
  "problem_element L t tcs =
     Element ''Problem''
       [(''xml:id'', L), (''Name'', L), (''Title'', L), (''Description'', ''description.html''),
        (''Timeout'', str_int t)]
       [Element ''Tests'' [(''xml:id'', L @ ''.tests'')] (map (test_element L) tcs)]"

definition tests_of :: "node \<Rightarrow> path \<Rightarrow> (path \<times> path \<times> string) list" where
  "tests_of fs p =
     zip (sorted_glob fs (path_join p ''tests'') ''.in'')
       (zip (sorted_glob fs (path_join p ''tests'') ''.out'')
            (stems (sorted_glob fs (path_join p ''tests'') ''.in'')))"

definition survivors :: "node \<Rightarrow> (path \<times> int) list \<Rightarrow> (path \<times> int) list" where
  "survivors fs pts = filter (\<lambda>pt. accepted fs (fst pt)) pts"

definition documented_manifest :: "node \<Rightarrow> (path \<times> int) list \<Rightarrow> xml" where
  "documented_manifest fs pts =
     Element ''Problems'' [(''Presents'', ''radio'')]
       (map (\<lambda>pt. problem_element (path_name (fst pt)) (snd pt) (tests_of fs (fst pt)))
            (survivors fs pts))"


text \<open>
  The archive layout as the specification describes it: the members \<open>ms\<close> hold the copy
  of the description of problem \<open>p\<close> and, for each of its test cases, the copies of the
  input and the output file in a directory named after the stem.
\<close>

definition file_at :: "node \<Rightarrow> path \<Rightarrow> string option" where
  "file_at fs p = (case lookup fs p of Some (File c) \<Rightarrow> Some c | _ \<Rightarrow> None)"

definition archived :: "node \<Rightarrow> member list \<Rightarrow> path \<Rightarrow> bool" where
  "archived fs ms p \<longleftrightarrow>
     file_at fs (path_join p ''description.html'') \<noteq> None
     \<and> ([path_name p, ''description.html''], file_at fs (path_join p ''description.html'')) \<in> set ms
     \<and> (\<forall>tc \<in> set (tests_of fs p).
           file_at fs (fst tc) \<noteq> None \<and> file_at fs (fst (snd tc)) \<noteq> None
           \<and> ([path_name p, ''tests'', snd (snd tc), path_name (fst tc)], file_at fs (fst tc))
                \<in> set ms
           \<and> ([path_name p, ''tests'', snd (snd tc), path_name (fst (snd tc))],
               file_at fs (fst (snd tc))) \<in> set ms)"

text \<open>
  Two trees that hold the same files and directories and differ at most in the order in
  which each directory enumerates its entries.
\<close>

fun same_tree :: "node \<Rightarrow> node \<Rightarrow> bool" where
  "same_tree (File c) (File c') = (c = c')"
| "same_tree (Dir es) (Dir es') =
     (distinct (map fst es) \<and> distinct (map fst es') \<and> fst ` set es = fst ` set es'
      \<and> (\<forall>e \<in> set es. \<forall>e' \<in> set es'. fst e = fst e' \<longrightarrow> same_tree (snd e) (snd e')))"
| "same_tree (File c) (Dir es') = False"
| "same_tree (Dir es) (File c') = False"


text \<open>Two runs that agree on everything but the log.\<close>

definition same_core :: "run \<Rightarrow> run \<Rightarrow> bool" where
  "same_core r r' \<longleftrightarrow> tmp r = tmp r' \<and> tar r = tar r' \<and> xmlproblems r = xmlproblems r'"

text \<open>What a call leaves behind apart from the log: exception, archive file, staging directory.\<close>

definition outcome :: "error option \<times> state \<Rightarrow> error option \<times> archive_status \<times> node option" where
  "outcome x = (fst x, archivefile (snd x), staging (snd x))"

section \<open>Example inputs\<close>

definition env0 :: env where
  "env0 = \<lparr>escape_attrib = (\<lambda>s. s), readlines = (\<lambda>s. Some [s]), tmpdir = ''/tmp/tmpq8a1x2zs''\<rparr>"

definition state0 :: state where
  "state0 = \<lparr>archivefile = Absent, staging = None, log = []\<rparr>"

definition run0 :: run where
  "run0 = \<lparr>tmp = Dir [], tar = [], xmlproblems = Element ''Problems'' [(''Presents'', ''radio'')] [],
            logs = []\<rparr>"

definition problem_dir :: "(string \<times> node) list \<Rightarrow> node" where
  "problem_dir tests = Dir [(''description.html'', File ''<p>text</p>''), (''tests'', Dir tests)]"

text \<open>Two problems \<open>A\<close> and \<open>B\<close>, each with one matched test pair.\<close>

definition fs_two_problems :: node where
  "fs_two_problems =
     Dir [(''B'', problem_dir [(''1.out'', File ''16''), (''1.in'', File ''4'')]),
          (''A'', problem_dir [(''1.in'', File ''3''), (''1.out'', File ''9'')])]"

text \<open>A directory named \<open>AB\<close> with a description and one matched test pair.\<close>

definition fs_two_letters :: node where
  "fs_two_letters = Dir [(''AB'', problem_dir [(''1.in'', File ''3''), (''1.out'', File ''9'')])]"

text \<open>A problem \<open>A\<close> whose tests are \<open>a.in\<close>, \<open>a.j.in\<close>, \<open>a.out\<close> and \<open>a.j.out\<close>.\<close>

definition fs_dotted :: node where
  "fs_dotted = Dir [(''A'', problem_dir
     [(''a.in'', File ''1''), (''a.j.in'', File ''2''), (''a.out'', File ''3''), (''a.j.out'', File ''4'')])]"

text \<open>The tree \<open>fs_two_problems\<close> with its directories enumerated in another order.\<close>

definition fs_two_problems_reordered :: node where
  "fs_two_problems_reordered =
     Dir [(''A'', Dir [(''tests'', Dir [(''1.out'', File ''9''), (''1.in'', File ''3'')]),
                       (''description.html'', File ''<p>text</p>'')]),
          (''B'', problem_dir [(''1.in'', File ''4''), (''1.out'', File ''16'')])]"

text \<open>Another run's environment: only the name of the temporary directory differs.\<close>

definition env1 :: env where
  "env1 = \<lparr>escape_attrib = (\<lambda>s. s), readlines = (\<lambda>s. Some [s]), tmpdir = ''/tmp/tmpk3v9w0ab''\<rparr>"

text \<open>
  Problems \<open>x/B\<close>, with tests \<open>a\<close> and \<open>a-b\<close>, and \<open>y/A\<close>, with test \<open>1\<close>.
\<close>

definition fs_unsorted :: node where
  "fs_unsorted =
     Dir [(''x'', Dir [(''B'', problem_dir
            [(''a.in'', File ''1''), (''a.out'', File ''2''),
             (''a-b.in'', File ''3''), (''a-b.out'', File ''4'')])]),
          (''y'', Dir [(''A'', problem_dir [(''1.in'', File ''5''), (''1.out'', File ''6'')])])]"

section \<open>Timeout resolution\<close>

lemma ints_of_map_PInt: "ints_of (map PInt ts) = Some ts"
  by (induction ts) auto

lemma ints_of_None_iff: "ints_of vs = None \<longleftrightarrow> (\<exists>v \<in> set vs. \<not> isinstance_int v)"
proof (induction vs)
  case Nil
  show ?case by simp
next
  case (Cons v vs)
  then show ?case by (cases v) auto
qed

text \<open>
  C2. For \<open>n\<close> problems, a single integer \<open>t\<close> and the one-element list \<open>[t]\<close> resolve to
  \<open>n\<close> copies of \<open>t\<close>; a list \<open>ts\<close> of exactly \<open>n\<close> integers resolves to itself, to be
  paired positionally with the sorted directories; a list \<open>us\<close> of more than one and
  fewer than \<open>n\<close> integers resolves to \<open>us\<close> followed by copies of its last element.
  In each of these shapes the resolved sequence has length \<open>n\<close>.
\<close>

theorem resolve_timeouts_shapes:
  "fst (resolve_timeouts (PInt t) n) = Inr (replicate n t)
   \<and> (length ts = n \<longrightarrow> fst (resolve_timeouts (PList (map PInt ts)) n) = Inr ts)
   \<and> fst (resolve_timeouts (PList [PInt t]) n) = Inr (replicate n t)
   \<and> (1 < length us \<and> length us < n \<longrightarrow>
        fst (resolve_timeouts (PList (map PInt us)) n)
          = Inr (us @ replicate (n - length us) (last us)))
   \<and> (timeouts = PInt t \<or> timeouts = PList [PInt t]
        \<or> (timeouts = PList (map PInt ts) \<and> length ts = n)
        \<or> (timeouts = PList (map PInt us) \<and> 1 < length us \<and> length us < n) \<longrightarrow>
      (\<exists>res. fst (resolve_timeouts timeouts n) = Inr res \<and> length res = n))"
  by (auto simp: resolve_timeouts_def ints_of_map_PInt)

theorem resolve_timeouts_shapes_witness:
  "fst (resolve_timeouts (PInt 5) 3) = Inr [5, 5, 5]
   \<and> fst (resolve_timeouts (PList [PInt 1, PInt 2, PInt 3]) 3) = Inr [1, 2, 3]
   \<and> fst (resolve_timeouts (PList [PInt 5]) 3) = Inr [5, 5, 5]
   \<and> fst (resolve_timeouts (PList [PInt 7, PInt 8]) 3) = Inr [7, 8, 8]
   \<and> (\<exists>res. fst (resolve_timeouts (PList [PInt 7, PInt 8]) 3) = Inr res \<and> length res = 3)"
  using resolve_timeouts_shapes [of 5 3 "[1, 2, 3]" "[7, 8]" "PList [PInt 7, PInt 8]"]
  by (simp add: numeral_3_eq_3)

section \<open>Errors raised before the archive is opened\<close>

text \<open>
  C4. When \<open>timeouts\<close> is a list with an element that is not an integer, or is neither
  an integer nor a list, \<open>build_archive\<close> raises \<open>ValueError\<close> and leaves the state as
  it was but for the log: the archive file is not created (it is absent afterwards if it
  was absent before) and no temporary directory is made.
\<close>

theorem invalid_timeouts_raise_before_archive:
  assumes "(\<exists>vs. timeouts = PList vs \<and> (\<exists>v \<in> set vs. \<not> isinstance_int v))
           \<or> (\<not> isinstance_int timeouts \<and> \<not> isinstance_list timeouts)"
  shows "(\<exists>msg. fst (build_archive E fs problems timeouts st) = Some (ValueError msg))
         \<and> archivefile (snd (build_archive E fs problems timeouts st)) = archivefile st
         \<and> staging (snd (build_archive E fs problems timeouts st)) = staging st"
  using assms
proof (elim disjE exE conjE)
  fix vs
  assume "timeouts = PList vs" and "\<exists>v \<in> set vs. \<not> isinstance_int v"
  then have "ints_of vs = None" "timeouts = PList vs"
    by (simp_all add: ints_of_None_iff)
  then show ?thesis
    by (cases problems) (simp_all add: build_archive_def resolve_timeouts_def Let_def)
next
  assume "\<not> isinstance_int timeouts" and "\<not> isinstance_list timeouts"
  then show ?thesis
    by (cases timeouts; cases problems)
       (simp_all add: build_archive_def resolve_timeouts_def Let_def)
qed

theorem invalid_timeouts_raise_before_archive_witness:
  "(\<exists>msg. fst (build_archive env0 fs_two_letters (Some [[''AB'']]) (PList [PInt 1, PStr ''x'']) state0)
            = Some (ValueError msg))
   \<and> archivefile (snd (build_archive env0 fs_two_letters (Some [[''AB'']])
                          (PList [PInt 1, PStr ''x'']) state0)) = archivefile state0
   \<and> staging (snd (build_archive env0 fs_two_letters (Some [[''AB'']])
                      (PList [PInt 1, PStr ''x'']) state0)) = staging state0"
proof -
  have h: "(\<exists>vs. PList [PInt 1, PStr ''x''] = PList vs \<and> (\<exists>v \<in> set vs. \<not> isinstance_int v))
           \<or> (\<not> isinstance_int (PList [PInt 1, PStr ''x''])
               \<and> \<not> isinstance_list (PList [PInt 1, PStr ''x'']))"
    by simp
  show ?thesis
    by (rule invalid_timeouts_raise_before_archive [OF h])
qed

text \<open>
  C10. With the empty list as \<open>timeouts\<close> and at least one problem directory,
  \<open>build_archive\<close> raises \<open>IndexError\<close> (from \<open>timeouts[-1]\<close>), not a \<open>ValueError\<close>, and
  the archive file is not created.
\<close>

theorem empty_timeouts_raise_IndexError:
  assumes "discover fs problems \<noteq> []"
  shows "fst (build_archive E fs problems (PList []) st) = Some IndexError
         \<and> archivefile (snd (build_archive E fs problems (PList []) st)) = archivefile st
         \<and> staging (snd (build_archive E fs problems (PList []) st)) = staging st"
  using assms
  by (cases problems) (simp_all add: build_archive_def resolve_timeouts_def Let_def)

theorem empty_timeouts_raise_IndexError_witness:
  "fst (build_archive env0 fs_two_letters (Some [[''AB'']]) (PList []) state0) = Some IndexError
   \<and> archivefile (snd (build_archive env0 fs_two_letters (Some [[''AB'']]) (PList []) state0))
       = archivefile state0
   \<and> staging (snd (build_archive env0 fs_two_letters (Some [[''AB'']]) (PList []) state0))
       = staging state0"
proof -
  have h: "discover fs_two_letters (Some [[''AB'']]) \<noteq> []"
    by (simp add: discover_def)
  show ?thesis
    by (rule empty_timeouts_raise_IndexError [OF h])
qed

section \<open>The temporary directory\<close>

text \<open>
  C8. A run that reaches the staging phase (its timeouts resolve, so the archive is
  opened and the temporary directory made) ends without the temporary directory,
  whether \<open>build_archive\<close> returns or raises.
\<close>

theorem staging_directory_removed:
  assumes "fst (resolve_timeouts timeouts (length (discover fs problems))) = Inr ts"
  shows "staging (snd (build_archive E fs problems timeouts st)) = None"
proof -
  obtain ls where r: "resolve_timeouts timeouts (length (discover fs problems)) = (Inr ts, ls)"
    using assms by (cases "resolve_timeouts timeouts (length (discover fs problems))") simp
  show ?thesis
    by (simp add: build_archive_def Let_def r leave_with_def
             split: prod.splits option.splits)
qed

theorem staging_directory_removed_witness:
  "staging (snd (build_archive env0 fs_two_letters (Some [[''AB'']]) (PInt 1) state0)) = None
   \<and> staging (snd (build_archive env0 fs_two_letters (Some [[''AB''], [''AB'']]) (PInt 1) state0)) = None
   \<and> fst (build_archive env0 fs_two_letters (Some [[''AB''], [''AB'']]) (PInt 1) state0)
       = Some FileExistsError"
proof -
  have h1: "fst (resolve_timeouts (PInt 1) (length (discover fs_two_letters (Some [[''AB'']])))) = Inr [1]"
    by (simp add: resolve_timeouts_def discover_def)
  have h2: "fst (resolve_timeouts (PInt 1) (length (discover fs_two_letters (Some [[''AB''], [''AB'']]))))
              = Inr [1, 1]"
    by (simp add: resolve_timeouts_def discover_def)
  have e: "fst (build_archive env0 fs_two_letters (Some [[''AB''], [''AB'']]) (PInt 1) state0)
             = Some FileExistsError"
    by code_simp
  show ?thesis
    using staging_directory_removed [OF h1, of env0 state0]
          staging_directory_removed [OF h2, of env0 state0] e
    by simp
qed

section \<open>The directory-name check\<close>

text \<open>
  C1. The check of line 86 accepts the two-letter name \<open>AB\<close>: a directory of that name
  with a description and matched tests passes every check and is archived.
\<close>

theorem name_check_accepts_two_letters:
  "name_ok ''AB'' \<and> accepted fs_two_letters [''AB''] \<and>
   ([''AB'', ''description.html''], Some ''<p>text</p>'')
     \<in> set (members (archivefile (snd (build_archive env0 fs_two_letters (Some [[''AB'']])
                                          (PInt 1) state0))))"
  by code_simp

section \<open>The comparison of test stems\<close>

text \<open>
  C3. For the tests \<open>a.in\<close>, \<open>a.j.in\<close>, \<open>a.out\<close>, \<open>a.j.out\<close> the sorted stems of the inputs
  equal the sorted stems of the outputs, and the check of line 117 rejects the problem:
  the files are sorted by name before their stems are taken, and \<open>a.in < a.j.in\<close> while
  \<open>a.j.out < a.out\<close>.
\<close>

theorem matching_stems_rejected:
  "sort (stems (glob_star fs_dotted [''A'', ''tests''] ''.in''))
     = sort (stems (glob_star fs_dotted [''A'', ''tests''] ''.out''))
   \<and> stems (sorted_glob fs_dotted [''A'', ''tests''] ''.in'') = [''a'', ''a.j'']
   \<and> stems (sorted_glob fs_dotted [''A'', ''tests''] ''.out'') = [''a.j'', ''a'']
   \<and> \<not> stems_match fs_dotted [''A'', ''tests'']
   \<and> \<not> accepted fs_dotted [''A'']"
  by code_simp

section \<open>Lemmas on file trees\<close>

lemma walk_get: "''..'' \<notin> set p \<Longrightarrow> walk up t p = get t p"
  by (induction up t p rule: walk.induct) (auto split: option.splits)

lemma lookup_get: "''..'' \<notin> set p \<Longrightarrow> lookup t p = get t p"
  by (simp add: lookup_def walk_get)

lemma fold_resolve: "''..'' \<notin> set p \<Longrightarrow>
    fold (\<lambda>c acc. if c = ''..'' then tl acc else c # acc) p acc = rev p @ acc"
  by (induction p arbitrary: acc) auto

lemma resolve_id: "''..'' \<notin> set p \<Longrightarrow> resolve p = p"
  by (simp add: resolve_def fold_resolve)

lemma walk_dotdot: "walk up t p = Some (Dir es) \<Longrightarrow> walk up t (p @ [''..'']) \<noteq> None"
  by (induction up t p rule: walk.induct) (auto split: option.splits list.splits if_splits)

lemma get_append: "get t (p @ q) = (case get t p of None \<Rightarrow> None | Some n \<Rightarrow> get n q)"
  by (induction t p rule: get.induct) (auto split: option.splits)

lemma get_put_same:
  "p \<noteq> [] \<Longrightarrow> get t (butlast p) = Some (Dir es) \<Longrightarrow> get (put t p new) p = Some new"
proof (induction t p new arbitrary: es rule: put.induct)
  case (1 t new)
  then show ?case by simp
next
  case (2 c x xs new)
  then show ?case by (cases xs) auto
next
  case (3 es' x xs new)
  show ?case
  proof (cases "map_of es' x")
    case None
    then show ?thesis using 3 by (cases xs) (auto simp: map_add_def split: if_splits)
  next
    case (Some ch)
    show ?thesis
    proof (cases "xs = []")
      case True
      then show ?thesis using Some by (simp add: update_conv')
    next
      case False
      then have "get ch (butlast xs) = Some (Dir es)" using "3.prems" Some by simp
      from "3.IH" [OF Some False this] show ?thesis using Some
        by (simp add: update_conv')
    qed
  qed
qed

lemma get_put_file:
  "get t p = None \<Longrightarrow> get t q = Some (File c) \<Longrightarrow> get (put t p new) q = Some (File c)"
proof (induction t p new arbitrary: q rule: put.induct)
  case (1 t new)
  then show ?case by simp
next
  case (2 c' x xs new)
  then show ?case by simp
next
  case (3 es x xs new)
  obtain y ys where q: "q = y # ys" using "3.prems" by (cases q) auto
  obtain chq where chq: "map_of es y = Some chq" "get chq ys = Some (File c)"
    using "3.prems" q by (auto split: option.splits)
  show ?case
  proof (cases "map_of es x")
    case None
    then show ?thesis using chq q by (auto simp: map_add_def split: option.splits)
  next
    case (Some ch)
    show ?thesis
    proof (cases "y = x")
      case True
      have "get ch xs = None" using "3.prems" Some by simp
      moreover have "get ch ys = Some (File c)" using chq Some True by simp
      ultimately have "get (put ch xs new) ys = Some (File c)" by (rule "3.IH" [OF Some])
      then show ?thesis using Some True q by (simp add: update_conv')
    next
      case False
      then show ?thesis using Some chq q by (simp add: update_conv')
    qed
  qed
qed

lemma get_put_dir:
  "get t p = None \<Longrightarrow> get t q = Some (Dir ds) \<Longrightarrow> \<exists>ds'. get (put t p new) q = Some (Dir ds')"
proof (induction t p new arbitrary: q rule: put.induct)
  case (1 t new)
  then show ?case by simp
next
  case (2 c' x xs new)
  then show ?case by simp
next
  case (3 es x xs new)
  show ?case
  proof (cases q)
    case Nil
    then show ?thesis by (auto split: option.splits)
  next
    case (Cons y ys)
    obtain chq where chq: "map_of es y = Some chq" "get chq ys = Some (Dir ds)"
      using "3.prems" Cons by (auto split: option.splits)
    show ?thesis
    proof (cases "map_of es x")
      case None
      then show ?thesis using chq Cons by (auto simp: map_add_def split: option.splits)
    next
      case (Some ch)
      show ?thesis
      proof (cases "y = x")
        case True
        have "get ch xs = None" using "3.prems" Some by simp
        moreover have "get ch ys = Some (Dir ds)" using chq Some True by simp
        ultimately have "\<exists>ds'. get (put ch xs new) ys = Some (Dir ds')" by (rule "3.IH" [OF Some])
        then show ?thesis using Some True Cons by (simp add: update_conv')
      next
        case False
        then show ?thesis using Some chq Cons by (simp add: update_conv')
      qed
    qed
  qed
qed

lemma get_put_fresh:
  "get t q = None \<Longrightarrow> p \<noteq> q \<Longrightarrow> (\<forall>r. r \<noteq> [] \<longrightarrow> get new r = None)
     \<Longrightarrow> get (put t p new) q = None"
proof (induction t p new arbitrary: q rule: put.induct)
  case (1 t new)
  then show ?case by (cases q) auto
next
  case (2 c' x xs new)
  then show ?case by simp
next
  case (3 es x xs new)
  obtain y ys where q: "q = y # ys" using "3.prems" by (cases q) auto
  show ?case
  proof (cases "map_of es x")
    case None
    then show ?thesis using "3.prems" q
      by (auto simp: map_add_def split: option.splits)
  next
    case (Some ch)
    show ?thesis
    proof (cases "y = x")
      case True
      have "get ch ys = None" using "3.prems" Some True q by simp
      moreover have "xs \<noteq> ys" using "3.prems" True q by simp
      ultimately have "get (put ch xs new) ys = None" using "3.prems"(3) by (rule "3.IH" [OF Some])
      then show ?thesis using Some True q by (simp add: update_conv')
    next
      case False
      then show ?thesis using Some "3.prems" q by (simp add: update_conv')
    qed
  qed
qed

section \<open>Problems that fail a check\<close>

lemma process_problem_rejected:
  assumes "\<not> accepted fs p"
  shows "fst (process_problem fs r (p, t)) = None
         \<and> tmp (snd (process_problem fs r (p, t))) = tmp r
         \<and> tar (snd (process_problem fs r (p, t))) = tar r
         \<and> xmlproblems (snd (process_problem fs r (p, t))) = xmlproblems r
         \<and> (\<exists>ls. logs (snd (process_problem fs r (p, t))) = logs r @ ls
                 \<and> (WARNING, ''Ignoring problem '' @ str_path p) \<in> set ls)"
  using assms
  by (auto simp: process_problem_def accepted_def stems_match_def Let_def
                 ignore_problem_def logging_def)

lemma process_problem_accepted:
  assumes "accepted fs p"
  shows "process_problem fs r (p, t)
           = stage_problem fs r (path_name p) t (path_join p ''description.html'')
               (sorted_glob fs (path_join p ''tests'') ''.in'')
               (sorted_glob fs (path_join p ''tests'') ''.out'')
               (stems (sorted_glob fs (path_join p ''tests'') ''.in''))"
  using assms
  by (simp add: process_problem_def accepted_def stems_match_def Let_def)

lemma run_problems_all_rejected:
  assumes "\<forall>pt \<in> set pts. \<not> accepted fs (fst pt)"
  shows "fst (run_problems fs pts r) = None
         \<and> tmp (snd (run_problems fs pts r)) = tmp r
         \<and> tar (snd (run_problems fs pts r)) = tar r
         \<and> xmlproblems (snd (run_problems fs pts r)) = xmlproblems r"
  using assms
proof (induction pts arbitrary: r)
  case Nil
  show ?case by simp
next
  case (Cons pt pts)
  obtain p t where pt: "pt = (p, t)" by (cases pt)
  have rej: "\<not> accepted fs p" using Cons.prems pt by simp
  obtain r' where r': "process_problem fs r (p, t) = (None, r')"
    using process_problem_rejected [OF rej, of r t]
    by (cases "process_problem fs r (p, t)") simp
  have same: "tmp r' = tmp r" "tar r' = tar r" "xmlproblems r' = xmlproblems r"
    using process_problem_rejected [OF rej, of r t] r' by simp_all
  have "\<forall>pt \<in> set pts. \<not> accepted fs (fst pt)" using Cons.prems by simp
  from Cons.IH [OF this, of r'] show ?case
    by (simp add: pt r' same)
qed

lemma write_file_lookup:
  assumes "write_file t p c = Inr t'" and "''..'' \<notin> set p" and "p \<noteq> []"
  shows "get t' p = Some (File c)"
proof -
  have nb: "''..'' \<notin> set (butlast p)" using assms(2) by (auto dest: in_set_butlastD)
  obtain es where es: "get t (butlast p) = Some (Dir es)" and t': "t' = put t p (File c)"
    using assms(1,2) nb
    by (auto simp: write_file_def resolve_id lookup_get split: option.splits node.splits)
  show ?thesis unfolding t' using assms(3) es by (rule get_put_same)
qed

lemma write_manifest_ok:
  assumes "write_manifest E r = (None, r')"
  shows "tar r' = tar r @ [([''Content.xml''], Some (tostring (escape_attrib E) (xmlproblems r)))]
         \<and> xmlproblems r' = xmlproblems r"
proof -
  let ?c = "tostring (escape_attrib E) (xmlproblems r)"
  obtain t1 where t1: "write_file (tmp r) [''Content.xml''] ?c = Inr t1"
    using assms by (auto simp: write_manifest_def path_join_def Let_def split: sum.splits)
  have g: "lookup t1 [''Content.xml''] = Some (File ?c)"
    using write_file_lookup [OF t1] by (simp add: lookup_get)
  show ?thesis
    using assms t1 g
    by (auto simp: write_manifest_def path_join_def Let_def logging_def archive_add_def
             split: sum.splits option.splits)
qed

lemma write_manifest_empty:
  assumes "tmp r = Dir []" and "readlines E (tostring (escape_attrib E) (xmlproblems r)) \<noteq> None"
  shows "fst (write_manifest E r) = None"
  using assms
  by (auto simp: write_manifest_def path_join_def Let_def logging_def archive_add_def
                 write_file_def lookup_def resolve_def
           split: sum.splits option.splits)


lemma root_element:
  "set_attr ''Presents'' ''radio'' (Element ''Problems'' [] [])
     = Element ''Problems'' [(''Presents'', ''radio'')] []"
  by (simp add: set_attr_def)

lemma build_archive_staging:
  assumes "fst (resolve_timeouts timeouts (length (discover fs problems))) = Inr ts"
  shows "\<exists>lg. build_archive E fs problems timeouts st =
           (case staging_block E fs (zip (discover fs problems) ts)
                   \<lparr>tmp = Dir [], tar = [], xmlproblems = Element ''Problems'' [] [], logs = lg\<rparr> of
              (Some e, r) \<Rightarrow>
                (Some e, leave_with
                   \<lparr>archivefile = Opened (tar r), staging = Some (tmp r), log = logs r\<rparr>)
            | (None, r) \<Rightarrow>
                (None, leave_with
                   \<lparr>archivefile = Closed (tar r), staging = Some (tmp r), log = logs r\<rparr>))"
proof -
  obtain ls where rt: "resolve_timeouts timeouts (length (discover fs problems)) = (Inr ts, ls)"
    using assms by (cases "resolve_timeouts timeouts (length (discover fs problems))") simp
  show ?thesis
    by (rule exI) (simp add: build_archive_def Let_def rt)
qed

lemma staging_block_all_rejected:
  assumes "\<forall>pt \<in> set pts. \<not> accepted fs (fst pt)"
    and "readlines E (tostring (escape_attrib E)
                        (Element ''Problems'' [(''Presents'', ''radio'')] [])) \<noteq> None"
    and "tmp r0 = Dir []" and "tar r0 = []"
  shows "fst (staging_block E fs pts r0) = None
         \<and> tar (snd (staging_block E fs pts r0))
             = [([''Content.xml''],
                 Some (tostring (escape_attrib E)
                         (Element ''Problems'' [(''Presents'', ''radio'')] [])))]"
proof -
  let ?root = "Element ''Problems'' [(''Presents'', ''radio'')] []"
  define r2 where "r2 = (logging DEBUG (''Using temporary directory: '' @ tmpdir E) r0)
                          \<lparr>xmlproblems := ?root\<rparr>"
  have r2: "tmp r2 = Dir []" "tar r2 = []" "xmlproblems r2 = ?root"
    using assms(3,4) by (simp_all add: r2_def logging_def)
  obtain r3 where r3: "run_problems fs pts r2 = (None, r3)"
    using run_problems_all_rejected [OF assms(1), of r2]
    by (cases "run_problems fs pts r2") simp
  have r3': "tmp r3 = Dir []" "tar r3 = []" "xmlproblems r3 = ?root"
    using run_problems_all_rejected [OF assms(1), of r2] r3 r2 by simp_all
  have "staging_block E fs pts r0 =
          (case run_problems fs pts r2 of
             (Some e, r3) \<Rightarrow> (Some e, r3)
           | (None, r3) \<Rightarrow> write_manifest E r3)"
    by (simp add: staging_block_def Let_def root_element r2_def)
  then have sb: "staging_block E fs pts r0 = write_manifest E r3"
    by (simp add: r3)
  have ok: "fst (write_manifest E r3) = None"
    using write_manifest_empty [of r3 E] r3' assms(2) by simp
  then obtain r4 where r4: "write_manifest E r3 = (None, r4)"
    by (cases "write_manifest E r3") simp
  show ?thesis
    using write_manifest_ok [OF r4] r4 r3' sb by simp
qed


text \<open>
  C5. A problem that fails one of the seven checks does not raise: the iteration ends
  without an exception, leaves the staging tree, the archive and the manifest as they
  were, logs a warning that the problem is ignored, and the loop goes on with the next
  problem. When every problem fails a check (and the timeouts resolve, and the manifest
  reads back as text), \<open>build_archive\<close> returns normally and the closed archive holds
  the manifest \<open>Content.xml\<close>, with no problem in it, as its only member.
\<close>

theorem rejected_problems_are_skipped:
  "(\<not> accepted fs p \<longrightarrow>
      fst (process_problem fs r (p, t)) = None
      \<and> tmp (snd (process_problem fs r (p, t))) = tmp r
      \<and> tar (snd (process_problem fs r (p, t))) = tar r
      \<and> xmlproblems (snd (process_problem fs r (p, t))) = xmlproblems r
      \<and> (\<exists>ls. logs (snd (process_problem fs r (p, t))) = logs r @ ls
              \<and> (WARNING, ''Ignoring problem '' @ str_path p) \<in> set ls)
      \<and> run_problems fs ((p, t) # rest) r
          = run_problems fs rest (snd (process_problem fs r (p, t))))
   \<and> ((\<forall>q \<in> set (discover fs problems). \<not> accepted fs q)
       \<and> fst (resolve_timeouts timeouts (length (discover fs problems))) = Inr ts
       \<and> readlines E (tostring (escape_attrib E)
                        (Element ''Problems'' [(''Presents'', ''radio'')] [])) \<noteq> None \<longrightarrow>
       fst (build_archive E fs problems timeouts st) = None
       \<and> archivefile (snd (build_archive E fs problems timeouts st))
           = Closed [([''Content.xml''],
                      Some (tostring (escape_attrib E)
                              (Element ''Problems'' [(''Presents'', ''radio'')] [])))])"
proof (intro conjI impI)
  assume rej: "\<not> accepted fs p"
  note a = process_problem_rejected [OF rej, of r t]
  show "fst (process_problem fs r (p, t)) = None" using a by simp
  show "tmp (snd (process_problem fs r (p, t))) = tmp r" using a by simp
  show "tar (snd (process_problem fs r (p, t))) = tar r" using a by simp
  show "xmlproblems (snd (process_problem fs r (p, t))) = xmlproblems r" using a by simp
  show "\<exists>ls. logs (snd (process_problem fs r (p, t))) = logs r @ ls
              \<and> (WARNING, ''Ignoring problem '' @ str_path p) \<in> set ls" using a by simp
  show "run_problems fs ((p, t) # rest) r
          = run_problems fs rest (snd (process_problem fs r (p, t)))"
    using a by (cases "process_problem fs r (p, t)") simp
next
  let ?root = "Element ''Problems'' [(''Presents'', ''radio'')] []"
  let ?pts = "zip (discover fs problems) ts"
  assume h: "(\<forall>q \<in> set (discover fs problems). \<not> accepted fs q)
       \<and> fst (resolve_timeouts timeouts (length (discover fs problems))) = Inr ts
       \<and> readlines E (tostring (escape_attrib E) ?root) \<noteq> None"
  obtain ls where rt: "resolve_timeouts timeouts (length (discover fs problems)) = (Inr ts, ls)"
    using h by (cases "resolve_timeouts timeouts (length (discover fs problems))") simp
  have allrej: "\<forall>pt \<in> set ?pts. \<not> accepted fs (fst pt)"
    using h by (auto dest: set_zip_leftD)
  have res: "fst (build_archive E fs problems timeouts st) = None
       \<and> archivefile (snd (build_archive E fs problems timeouts st))
           = Closed [([''Content.xml''], Some (tostring (escape_attrib E) ?root))]"
  proof -
    obtain lg where b: "build_archive E fs problems timeouts st =
           (case staging_block E fs ?pts
                   \<lparr>tmp = Dir [], tar = [], xmlproblems = Element ''Problems'' [] [], logs = lg\<rparr> of
              (Some e, r) \<Rightarrow>
                (Some e, leave_with
                   \<lparr>archivefile = Opened (tar r), staging = Some (tmp r), log = logs r\<rparr>)
            | (None, r) \<Rightarrow>
                (None, leave_with
                   \<lparr>archivefile = Closed (tar r), staging = Some (tmp r), log = logs r\<rparr>))"
      using build_archive_staging [of timeouts fs problems ts E st] h by blast
    let ?r0 = "\<lparr>tmp = Dir [], tar = [], xmlproblems = Element ''Problems'' [] [], logs = lg\<rparr>"
    have sb: "fst (staging_block E fs ?pts ?r0) = None
              \<and> tar (snd (staging_block E fs ?pts ?r0))
                  = [([''Content.xml''], Some (tostring (escape_attrib E) ?root))]"
      using staging_block_all_rejected [OF allrej, of E ?r0] h by simp
    then obtain r where r: "staging_block E fs ?pts ?r0 = (None, r)"
      by (cases "staging_block E fs ?pts ?r0") simp
    show ?thesis using sb by (simp add: b r leave_with_def)
  qed
  show "fst (build_archive E fs problems timeouts st) = None" using res by simp
  show "archivefile (snd (build_archive E fs problems timeouts st))
           = Closed [([''Content.xml''], Some (tostring (escape_attrib E) ?root))]"
    using res by simp
qed

theorem rejected_problems_are_skipped_witness:
  "fst (process_problem fs_dotted run0 ([''A''], 1)) = None
   \<and> tmp (snd (process_problem fs_dotted run0 ([''A''], 1))) = tmp run0
   \<and> tar (snd (process_problem fs_dotted run0 ([''A''], 1))) = tar run0
   \<and> xmlproblems (snd (process_problem fs_dotted run0 ([''A''], 1))) = xmlproblems run0
   \<and> (\<exists>ls. logs (snd (process_problem fs_dotted run0 ([''A''], 1))) = logs run0 @ ls
           \<and> (WARNING, ''Ignoring problem '' @ str_path [''A'']) \<in> set ls)
   \<and> fst (build_archive env0 fs_dotted (Some [[''A'']]) (PInt 1) state0) = None
   \<and> archivefile (snd (build_archive env0 fs_dotted (Some [[''A'']]) (PInt 1) state0))
       = Closed [([''Content.xml''],
                  Some (tostring (escape_attrib env0)
                          (Element ''Problems'' [(''Presents'', ''radio'')] [])))]"
proof -
  have h1: "\<not> accepted fs_dotted [''A'']"
    by code_simp
  have h2: "(\<forall>q \<in> set (discover fs_dotted (Some [[''A'']])). \<not> accepted fs_dotted q)
       \<and> fst (resolve_timeouts (PInt 1) (length (discover fs_dotted (Some [[''A'']])))) = Inr [1]
       \<and> readlines env0 (tostring (escape_attrib env0)
                        (Element ''Problems'' [(''Presents'', ''radio'')] [])) \<noteq> None"
    using h1 by (simp add: discover_def resolve_timeouts_def env0_def)
  show ?thesis
    using rejected_problems_are_skipped
            [where fs = fs_dotted and p = "[''A'']" and r = run0 and t = 1 and rest = "[]"
               and problems = "Some [[''A'']]" and timeouts = "PInt 1" and ts = "[1]"
               and E = env0 and st = state0] h1 h2
    by simp
qed

section \<open>The manifest of a run that returns\<close>

lemma in_last_snoc: "in_last f (Element tg a (cs @ [c])) = Element tg a (cs @ [f c])"
  by (simp add: in_last_def)

lemma new_test_eq:
  "new_test L inp out name (Element tg a cs)
     = Element tg a (cs @ [test_element L (inp, out, name)])"
  by (simp add: new_test_def SubElement_def in_last_snoc set_attr_def test_element_def)

lemma new_tests_eq:
  "new_tests L (Element tg a cs)
     = Element tg a (cs @ [Element ''Tests'' [(''xml:id'', L @ ''.tests'')] []])"
  by (simp add: new_tests_def SubElement_def in_last_snoc set_attr_def)

lemma new_problem_eq:
  "new_problem L t (Element tg a cs)
     = Element tg a (cs @ [Element ''Problem''
         [(''xml:id'', L), (''Name'', L), (''Title'', L), (''Description'', ''description.html''),
          (''Timeout'', str_int t)] []])"
  by (simp add: new_problem_def SubElement_def in_last_snoc set_attr_def)

lemma stage_tests_xml:
  assumes "stage_tests fs L td tcs r = (None, r')"
    and "xmlproblems r = Element tg a (cs @ [Element ptg pa (pcs @ [Element ttg ta ts])])"
  shows "xmlproblems r'
           = Element tg a (cs @ [Element ptg pa (pcs @ [Element ttg ta (ts @ map (test_element L) tcs)])])"
  using assms
proof (induction tcs arbitrary: r ts)
  case Nil
  then show ?case by simp
next
  case (Cons tc tcs)
  obtain inp out name where tc: "tc = (inp, out, name)" by (cases tc)
  let ?x = "Element tg a (cs @ [Element ptg pa (pcs @ [Element ttg ta (ts @ [test_element L (inp, out, name)])])])"
  let ?r1 = "r\<lparr>xmlproblems := ?x\<rparr>"
  have x: "in_last (in_last (new_test L inp out name)) (xmlproblems r) = ?x"
    by (simp add: Cons.prems(2) in_last_snoc new_test_eq)
  obtain t3 where rest: "stage_tests fs L td tcs (?r1\<lparr>tmp := t3\<rparr>) = (None, r')"
    using Cons.prems(1) unfolding tc
    by (auto simp: x Let_def split: sum.splits)
  have "xmlproblems (?r1\<lparr>tmp := t3\<rparr>) = ?x" by simp
  from Cons.IH [OF rest this] show ?case by (simp add: tc)
qed

lemma stage_problem_xml:
  assumes "stage_problem fs r L t d inputs outputs st = (None, r')"
    and "xmlproblems r = Element tg a cs"
  shows "xmlproblems r'
           = Element tg a (cs @ [problem_element L t (zip inputs (zip outputs st))])"
proof -
  let ?p0 = "Element ''Problem''
         [(''xml:id'', L), (''Name'', L), (''Title'', L), (''Description'', ''description.html''),
          (''Timeout'', str_int t)]"
  let ?r1 = "r\<lparr>xmlproblems := Element tg a (cs @ [?p0 []])\<rparr>"
  let ?x2 = "Element tg a (cs @ [?p0 ([] @ [Element ''Tests'' [(''xml:id'', L @ ''.tests'')] []])])"
  have x1: "new_problem L t (xmlproblems r) = Element tg a (cs @ [?p0 []])"
    by (simp add: assms(2) new_problem_eq)
  have x2: "in_last (new_tests L) (Element tg a (cs @ [?p0 []])) = ?x2"
    by (simp add: in_last_snoc new_tests_eq)
  obtain t3 r3 where st: "stage_tests fs L (path_join (path_join [] L) ''tests'')
                             (zip inputs (zip outputs st)) (?r1\<lparr>tmp := t3, xmlproblems := ?x2\<rparr>)
                           = (None, r3)"
    and r': "xmlproblems r' = xmlproblems r3"
    using assms(1) unfolding stage_problem_def Let_def x1
    by (auto simp: x2 split: sum.splits prod.splits option.splits)
  have "xmlproblems (?r1\<lparr>tmp := t3, xmlproblems := ?x2\<rparr>) = ?x2" by simp
  from stage_tests_xml [OF st this] show ?thesis
    by (simp add: r' problem_element_def)
qed

lemma run_problems_xml:
  assumes "run_problems fs pts r = (None, r')"
    and "xmlproblems r = Element tg a cs"
  shows "xmlproblems r'
           = Element tg a (cs @ map (\<lambda>pt. problem_element (path_name (fst pt)) (snd pt)
                                             (tests_of fs (fst pt)))
                                    (survivors fs pts))"
  using assms
proof (induction pts arbitrary: r cs)
  case Nil
  then show ?case by (simp add: survivors_def)
next
  case (Cons pt pts)
  obtain p t where pt: "pt = (p, t)" by (cases pt)
  obtain r1 where r1: "process_problem fs r (p, t) = (None, r1)"
    and rest: "run_problems fs pts r1 = (None, r')"
    using Cons.prems(1) unfolding pt
    by (auto split: prod.splits option.splits)
  show ?case
  proof (cases "accepted fs p")
    case True
    have "stage_problem fs r (path_name p) t (path_join p ''description.html'')
               (sorted_glob fs (path_join p ''tests'') ''.in'')
               (sorted_glob fs (path_join p ''tests'') ''.out'')
               (stems (sorted_glob fs (path_join p ''tests'') ''.in'')) = (None, r1)"
      using process_problem_accepted [OF True, of r t] r1 by simp
    from stage_problem_xml [OF this Cons.prems(2)]
    have "xmlproblems r1 = Element tg a (cs @ [problem_element (path_name p) t (tests_of fs p)])"
      by (simp add: tests_of_def)
    from Cons.IH [OF rest this] show ?thesis
      using True by (simp add: pt survivors_def)
  next
    case False
    have "xmlproblems r1 = Element tg a cs"
      using process_problem_rejected [OF False, of r t] r1 Cons.prems(2) by simp
    from Cons.IH [OF rest this] show ?thesis
      using False by (simp add: pt survivors_def)
  qed
qed

lemma staging_block_xml:
  assumes "staging_block E fs pts r0 = (None, r)"
  shows "\<exists>ms. tar r = ms @ [([''Content.xml''],
                               Some (tostring (escape_attrib E) (documented_manifest fs pts)))]"
proof -
  let ?root = "Element ''Problems'' [(''Presents'', ''radio'')] []"
  define r2 where "r2 = (logging DEBUG (''Using temporary directory: '' @ tmpdir E) r0)
                          \<lparr>xmlproblems := ?root\<rparr>"
  have sb: "staging_block E fs pts r0 =
          (case run_problems fs pts r2 of
             (Some e, r3) \<Rightarrow> (Some e, r3)
           | (None, r3) \<Rightarrow> write_manifest E r3)"
    by (simp add: staging_block_def Let_def root_element r2_def)
  obtain r3 where r3: "run_problems fs pts r2 = (None, r3)" and wm: "write_manifest E r3 = (None, r)"
    using assms unfolding sb by (auto split: prod.splits option.splits)
  have "xmlproblems r2 = Element ''Problems'' [(''Presents'', ''radio'')] []"
    by (simp add: r2_def)
  from run_problems_xml [OF r3 this]
  have x: "xmlproblems r3 = documented_manifest fs pts"
    by (simp add: documented_manifest_def)
  show ?thesis
    using write_manifest_ok [OF wm] x by simp
qed

lemma build_archive_returns:
  assumes "fst (build_archive E fs problems timeouts st) = None"
  shows "\<exists>ts r0 r. fst (resolve_timeouts timeouts (length (discover fs problems))) = Inr ts
           \<and> tmp r0 = Dir [] \<and> tar r0 = []
           \<and> staging_block E fs (zip (discover fs problems) ts) r0 = (None, r)
           \<and> archivefile (snd (build_archive E fs problems timeouts st)) = Closed (tar r)"
proof -
  obtain res ls where rt: "resolve_timeouts timeouts (length (discover fs problems)) = (res, ls)"
    by (cases "resolve_timeouts timeouts (length (discover fs problems))")
  obtain ts where ts: "res = Inr ts"
    using assms rt by (cases res) (simp_all add: build_archive_def Let_def)
  have f: "fst (resolve_timeouts timeouts (length (discover fs problems))) = Inr ts"
    by (simp add: rt ts)
  obtain lg where b: "build_archive E fs problems timeouts st =
           (case staging_block E fs (zip (discover fs problems) ts)
                   \<lparr>tmp = Dir [], tar = [], xmlproblems = Element ''Problems'' [] [], logs = lg\<rparr> of
              (Some e, r) \<Rightarrow>
                (Some e, leave_with
                   \<lparr>archivefile = Opened (tar r), staging = Some (tmp r), log = logs r\<rparr>)
            | (None, r) \<Rightarrow>
                (None, leave_with
                   \<lparr>archivefile = Closed (tar r), staging = Some (tmp r), log = logs r\<rparr>))"
    using build_archive_staging [OF f, of E st] by blast
  let ?r0 = "\<lparr>tmp = Dir [], tar = [], xmlproblems = Element ''Problems'' [] [], logs = lg\<rparr>"
  obtain r where r: "staging_block E fs (zip (discover fs problems) ts) ?r0 = (None, r)"
    using assms unfolding b by (auto split: prod.splits option.splits)
  have "archivefile (snd (build_archive E fs problems timeouts st)) = Closed (tar r)"
    by (simp add: b r leave_with_def)
  with f r show ?thesis by (intro exI [of _ ts] exI [of _ ?r0] exI [of _ r]) simp
qed


text \<open>\<open>str_int\<close> writes the decimal digits of its argument, after a minus sign if it is negative.\<close>

lemma digit_char_value: "d < 10 \<Longrightarrow> of_char (digit_char d) = (48 + d :: nat)"
proof -
  assume "d < 10"
  then have "d \<in> {0, 1, 2, 3, 4, 5, 6, 7, 8, 9}" by auto
  then show ?thesis by (auto simp: digit_char_def)
qed

lemma decimal_snoc: "decimal (s @ [c]) = 10 * decimal s + (of_char c - 48)"
  by (simp add: decimal_def)

lemma decimal_str_nat: "decimal (str_nat n) = n"
proof (induction n rule: str_nat.induct)
  case (1 n)
  show ?case
  proof (cases "n < 10")
    case True
    then show ?thesis
      by (subst str_nat.simps) (simp add: decimal_def digit_char_value)
  next
    case False
    have "decimal (str_nat (n div 10)) = n div 10" using 1 False by simp
    then show ?thesis
      using False
      by (subst str_nat.simps) (simp add: decimal_snoc digit_char_value)
  qed
qed

lemma str_int_decimal:
  "str_int i = (if i < 0 then CHR ''-'' # str_nat (nat (- i)) else str_nat (nat i))
   \<and> int (decimal (str_nat (nat \<bar>i\<bar>))) = \<bar>i\<bar>"
  by (simp add: str_int_def decimal_str_nat)

text \<open>
  C6. When \<open>build_archive\<close> returns, the last member of the archive is \<open>Content.xml\<close>
  and its bytes are the XML declaration for ISO-8859-1 followed by the serialization of
  the documented manifest: root \<open>Problems\<close> with \<open>Presents="radio"\<close> and, for each
  problem that passed the checks, in the order of the sorted directories, a \<open>Problem\<close>
  element with \<open>xml:id\<close>, \<open>Name\<close> and \<open>Title\<close> equal to the directory name,
  \<open>Description\<close> equal to \<open>description.html\<close> and \<open>Timeout\<close> equal to the decimal
  string of its timeout, nesting one \<open>Tests\<close> element with identifier \<open>L.tests\<close> that
  holds one \<open>Test\<close> element per test case with identifier \<open>L.tests.stem\<close> and the names
  of the input and output files.
\<close>

theorem manifest_structure:
  assumes "fst (build_archive E fs problems timeouts st) = None"
  shows "\<exists>ts ms. fst (resolve_timeouts timeouts (length (discover fs problems))) = Inr ts
           \<and> archivefile (snd (build_archive E fs problems timeouts st))
               = Closed (ms @ [([''Content.xml''],
                   Some (xml_declaration @ serialize_xml (escape_attrib E)
                           (documented_manifest fs (zip (discover fs problems) ts))))])"
proof -
  obtain ts r0 r where f: "fst (resolve_timeouts timeouts (length (discover fs problems))) = Inr ts"
    and sb: "staging_block E fs (zip (discover fs problems) ts) r0 = (None, r)"
    and a: "archivefile (snd (build_archive E fs problems timeouts st)) = Closed (tar r)"
    using build_archive_returns [OF assms] by blast
  from staging_block_xml [OF sb] obtain ms where
    "tar r = ms @ [([''Content.xml''],
                   Some (tostring (escape_attrib E)
                           (documented_manifest fs (zip (discover fs problems) ts))))]"
    by blast
  with f a show ?thesis by (auto simp: tostring_def)
qed

theorem manifest_structure_witness:
  "(\<exists>ts ms. fst (resolve_timeouts (PInt 5) (length (discover fs_two_problems None))) = Inr ts
           \<and> archivefile (snd (build_archive env0 fs_two_problems None (PInt 5) state0))
               = Closed (ms @ [([''Content.xml''],
                   Some (xml_declaration @ serialize_xml (escape_attrib env0)
                           (documented_manifest fs_two_problems
                              (zip (discover fs_two_problems None) ts))))]))
   \<and> documented_manifest fs_two_problems (zip (discover fs_two_problems None) [5, 5])
   = Element ''Problems'' [(''Presents'', ''radio'')]
       [Element ''Problem''
          [(''xml:id'', ''A''), (''Name'', ''A''), (''Title'', ''A''),
           (''Description'', ''description.html''), (''Timeout'', ''5'')]
          [Element ''Tests'' [(''xml:id'', ''A.tests'')]
             [Element ''Test'' [(''xml:id'', ''A.tests.1''), (''input'', ''1.in''),
                                (''output'', ''1.out'')] []]],
        Element ''Problem''
          [(''xml:id'', ''B''), (''Name'', ''B''), (''Title'', ''B''),
           (''Description'', ''description.html''), (''Timeout'', ''5'')]
          [Element ''Tests'' [(''xml:id'', ''B.tests'')]
             [Element ''Test'' [(''xml:id'', ''B.tests.1''), (''input'', ''1.in''),
                                (''output'', ''1.out'')] []]]]"
proof -
  have h: "fst (build_archive env0 fs_two_problems None (PInt 5) state0) = None"
    by code_simp
  have c: "documented_manifest fs_two_problems (zip (discover fs_two_problems None) [5, 5])
   = Element ''Problems'' [(''Presents'', ''radio'')]
       [Element ''Problem''
          [(''xml:id'', ''A''), (''Name'', ''A''), (''Title'', ''A''),
           (''Description'', ''description.html''), (''Timeout'', ''5'')]
          [Element ''Tests'' [(''xml:id'', ''A.tests'')]
             [Element ''Test'' [(''xml:id'', ''A.tests.1''), (''input'', ''1.in''),
                                (''output'', ''1.out'')] []]],
        Element ''Problem''
          [(''xml:id'', ''B''), (''Name'', ''B''), (''Title'', ''B''),
           (''Description'', ''description.html''), (''Timeout'', ''5'')]
          [Element ''Tests'' [(''xml:id'', ''B.tests'')]
             [Element ''Test'' [(''xml:id'', ''B.tests.1''), (''input'', ''1.in''),
                                (''output'', ''1.out'')] []]]]"
    by code_simp
  show ?thesis
  proof (rule conjI)
    show "\<exists>ts ms. fst (resolve_timeouts (PInt 5) (length (discover fs_two_problems None))) = Inr ts
           \<and> archivefile (snd (build_archive env0 fs_two_problems None (PInt 5) state0))
               = Closed (ms @ [([''Content.xml''],
                   Some (xml_declaration @ serialize_xml (escape_attrib env0)
                           (documented_manifest fs_two_problems
                              (zip (discover fs_two_problems None) ts))))])"
      by (rule manifest_structure [OF h])
    show "documented_manifest fs_two_problems (zip (discover fs_two_problems None) [5, 5])
   = Element ''Problems'' [(''Presents'', ''radio'')]
       [Element ''Problem''
          [(''xml:id'', ''A''), (''Name'', ''A''), (''Title'', ''A''),
           (''Description'', ''description.html''), (''Timeout'', ''5'')]
          [Element ''Tests'' [(''xml:id'', ''A.tests'')]
             [Element ''Test'' [(''xml:id'', ''A.tests.1''), (''input'', ''1.in''),
                                (''output'', ''1.out'')] []]],
        Element ''Problem''
          [(''xml:id'', ''B''), (''Name'', ''B''), (''Title'', ''B''),
           (''Description'', ''description.html''), (''Timeout'', ''5'')]
          [Element ''Tests'' [(''xml:id'', ''B.tests'')]
             [Element ''Test'' [(''xml:id'', ''B.tests.1''), (''input'', ''1.in''),
                                (''output'', ''1.out'')] []]]]"
      by (rule c)
  qed
qed

section \<open>The archive of a run that returns\<close>

lemma endswith_in_name:
  "endswith n ''.in'' \<Longrightarrow> n \<noteq> [] \<and> n \<noteq> ''.'' \<and> n \<noteq> ''..''"
  by (auto simp: endswith_def)

lemma endswith_out_name:
  "endswith n ''.out'' \<Longrightarrow> n \<noteq> [] \<and> n \<noteq> ''.'' \<and> n \<noteq> ''..''"
  by (auto simp: endswith_def)

lemma endswith_last:
  assumes "endswith n suf" and "suf \<noteq> []"
  shows "last n = last suf"
proof -
  have d: "drop (length n - length suf) n = suf" and l: "length suf \<le> length n"
    using assms(1) by (simp_all add: endswith_def)
  have "length n - length suf < length n" using l assms(2) by (cases suf) auto
  then have "last (drop (length n - length suf) n) = last n" by (rule last_drop)
  then show ?thesis by (simp add: d)
qed

lemma endswith_in_out: "endswith n ''.in'' \<Longrightarrow> endswith m ''.out'' \<Longrightarrow> n \<noteq> m"
  using endswith_last [of n "''.in''"] endswith_last [of m "''.out''"] by auto

lemma mkdir_ok:
  assumes "mkdir t p = Inr t'" and "''..'' \<notin> set p"
  shows "p \<noteq> [] \<and> get t p = None \<and> t' = put t p (Dir []) \<and> get t' p = Some (Dir [])"
proof -
  have nb: "''..'' \<notin> set (butlast p)" using assms(2) by (auto dest: in_set_butlastD)
  have n: "get t p = None"
    using assms by (auto simp: mkdir_def lookup_get split: if_splits)
  then have ne: "p \<noteq> []" by auto
  obtain es where es: "get t (butlast p) = Some (Dir es)" and t': "t' = put t p (Dir [])"
    using assms nb
    by (auto simp: mkdir_def resolve_id lookup_get split: option.splits node.splits if_splits)
  have "get t' p = Some (Dir [])" unfolding t' using ne es by (rule get_put_same)
  with n ne t' show ?thesis by simp
qed

lemma mkdir_join:
  assumes "mkdir t (path_join d s) = Inr t'" and "get t d = Some (Dir es)" and "''..'' \<notin> set d"
  shows "path_join d s = d @ [s] \<and> s \<noteq> ''..''"
proof -
  have ex: "lookup t d = Some (Dir es)" using assms(2,3) by (simp add: lookup_get)
  have 1: "s \<noteq> [] \<and> s \<noteq> ''.''"
  proof (rule ccontr)
    assume "\<not> (s \<noteq> [] \<and> s \<noteq> ''.'')"
    then have "path_join d s = d" by (auto simp: path_join_def)
    then show False using assms(1) ex by (simp add: mkdir_def)
  qed
  then have pj: "path_join d s = d @ [s]" by (simp add: path_join_def)
  have "s \<noteq> ''..''"
  proof
    assume "s = ''..''"
    then have "path_join d s = d @ [''..'']" using pj by simp
    then have "lookup t (path_join d s) \<noteq> None"
      using walk_dotdot [of "[]" t d es] ex by (simp add: lookup_def)
    then show False using assms(1) by (simp add: mkdir_def)
  qed
  with pj show ?thesis by simp
qed

lemma copy_ok:
  assumes "shutil_copy fs src t dst = Inr t'" and "''..'' \<notin> set dst" and "dst \<noteq> []"
    and "get t dst = None"
  shows "\<exists>c. lookup fs src = Some (File c) \<and> t' = put t dst (File c)
              \<and> get t' dst = Some (File c)"
proof -
  have nd: "\<not> is_dir t dst" using assms(2,4) by (simp add: is_dir_def lookup_get)
  obtain c where c: "lookup fs src = Some (File c)" and w: "write_file t dst c = Inr t'"
    using assms(1) nd by (auto simp: shutil_copy_def split: option.splits node.splits)
  have nb: "''..'' \<notin> set (butlast dst)" using assms(2) by (auto dest: in_set_butlastD)
  have t': "t' = put t dst (File c)"
    using w assms(2) nb
    by (auto simp: write_file_def resolve_id lookup_get split: option.splits node.splits)
  from write_file_lookup [OF w assms(2,3)] c t' show ?thesis by simp
qed

lemma tar_add_member:
  "get N q = Some (File c) \<Longrightarrow> (arc @ q, Some c) \<in> set (tar_add arc N)"
proof (induction N q arbitrary: arc rule: get.induct)
  case (1 n)
  then show ?case by simp
next
  case (2 c' x xs)
  then show ?case by simp
next
  case (3 es x xs)
  obtain ch where ch: "map_of es x = Some ch" and g: "get ch xs = Some (File c)"
    using "3.prems" by (auto split: option.splits)
  have m: "(x, ch) \<in> set es" using ch by (rule map_of_SomeD)
  from "3.IH" [OF ch g, of "arc @ [x]"]
  have "(arc @ x # xs, Some c) \<in> set (tar_add (arc @ [x]) ch)" by simp
  then show ?case using m by (auto intro!: bexI [of _ "(x, ch)"])
qed

lemma stage_one_test:
  assumes m: "mkdir t (path_join td name) = Inr t1"
    and c1: "shutil_copy fs inp t1 (path_join (path_join td name) (path_name inp)) = Inr t2"
    and c2: "shutil_copy fs out t2 (path_join (path_join td name) (path_name out)) = Inr t3"
    and d: "get t td = Some (Dir es)" and nd: "''..'' \<notin> set td"
    and e1: "endswith (path_name inp) ''.in''" and e2: "endswith (path_name out) ''.out''"
  shows "(\<exists>ci co. lookup fs inp = Some (File ci) \<and> lookup fs out = Some (File co)
            \<and> get t3 (td @ [name, path_name inp]) = Some (File ci)
            \<and> get t3 (td @ [name, path_name out]) = Some (File co))
         \<and> (\<forall>q c. get t q = Some (File c) \<longrightarrow> get t3 q = Some (File c))
         \<and> (\<exists>es'. get t3 td = Some (Dir es'))"
proof -
  let ?p = "td @ [name]"
  let ?pi = "td @ [name, path_name inp]"
  let ?po = "td @ [name, path_name out]"
  have pj: "path_join td name = ?p" and nn: "name \<noteq> ''..''"
    using mkdir_join [OF m d nd] by simp_all
  have np: "''..'' \<notin> set ?p" using nd nn by simp
  have mk: "get t ?p = None" "t1 = put t ?p (Dir [])" "get t1 ?p = Some (Dir [])"
    using mkdir_ok [OF m [unfolded pj] np] by blast+
  have ji: "path_join ?p (path_name inp) = ?pi"
    using endswith_in_name [OF e1] by (simp add: path_join_def)
  have jo: "path_join ?p (path_name out) = ?po"
    using endswith_out_name [OF e2] by (simp add: path_join_def)
  have npi: "''..'' \<notin> set ?pi" using np endswith_in_name [OF e1] by auto
  have npo: "''..'' \<notin> set ?po" using np endswith_out_name [OF e2] by auto
  have fi: "get t1 ?pi = None"
    using get_append [of t1 ?p "[path_name inp]"] mk(3) by simp
  have fo1: "get t1 ?po = None"
    using get_append [of t1 ?p "[path_name out]"] mk(3) by simp
  obtain ci where ci: "lookup fs inp = Some (File ci)" "t2 = put t1 ?pi (File ci)"
      "get t2 ?pi = Some (File ci)"
    using copy_ok [OF c1 [unfolded pj ji] npi _ fi] by auto
  have ne: "?pi \<noteq> ?po" using endswith_in_out [OF e1 e2] by simp
  have fo: "get t2 ?po = None"
    unfolding ci(2) using fo1 ne by (rule get_put_fresh) (simp add: neq_Nil_conv, auto)
  obtain co where co: "lookup fs out = Some (File co)" "t3 = put t2 ?po (File co)"
      "get t3 ?po = Some (File co)"
    using copy_ok [OF c2 [unfolded pj jo] npo _ fo] by auto
  have keep_i: "get t3 ?pi = Some (File ci)"
    unfolding co(2) using fo ci(3) by (rule get_put_file)
  have persist: "get t3 q = Some (File c)" if "get t q = Some (File c)" for q c
  proof -
    have "get t1 q = Some (File c)" unfolding mk(2) using mk(1) that by (rule get_put_file)
    then have "get t2 q = Some (File c)" unfolding ci(2) using fi by (intro get_put_file)
    then show ?thesis unfolding co(2) using fo by (intro get_put_file)
  qed
  have dir: "\<exists>es'. get t3 td = Some (Dir es')"
  proof -
    obtain e1 where "get t1 td = Some (Dir e1)"
      unfolding mk(2) using get_put_dir [OF mk(1) d] by blast
    then obtain e2 where "get t2 td = Some (Dir e2)"
      unfolding ci(2) using get_put_dir [OF fi] by blast
    then show ?thesis unfolding co(2) using get_put_dir [OF fo] by blast
  qed
  show ?thesis using ci(1) co(1) keep_i co(3) persist dir by blast
qed

lemma stage_tests_files:
  assumes "stage_tests fs L td tcs r = (None, r')"
    and "get (tmp r) td = Some (Dir es)" and "''..'' \<notin> set td"
    and "\<forall>tc \<in> set tcs. endswith (path_name (fst tc)) ''.in''
                         \<and> endswith (path_name (fst (snd tc))) ''.out''"
  shows "(\<forall>q c. get (tmp r) q = Some (File c) \<longrightarrow> get (tmp r') q = Some (File c))
         \<and> tar r' = tar r
         \<and> (\<forall>tc \<in> set tcs. \<exists>ci co.
               lookup fs (fst tc) = Some (File ci) \<and> lookup fs (fst (snd tc)) = Some (File co)
               \<and> get (tmp r') (td @ [snd (snd tc), path_name (fst tc)]) = Some (File ci)
               \<and> get (tmp r') (td @ [snd (snd tc), path_name (fst (snd tc))]) = Some (File co))"
  using assms
proof (induction tcs arbitrary: r es)
  case Nil
  then show ?case by simp
next
  case (Cons tc tcs)
  obtain inp out name where tc: "tc = (inp, out, name)" by (cases tc)
  let ?r1 = "r\<lparr>xmlproblems := in_last (in_last (new_test L inp out name)) (xmlproblems r)\<rparr>"
  obtain t1 t2 t3 where
    m: "mkdir (tmp r) (path_join td name) = Inr t1"
    and c1: "shutil_copy fs inp t1 (path_join (path_join td name) (path_name inp)) = Inr t2"
    and c2: "shutil_copy fs out t2 (path_join (path_join td name) (path_name out)) = Inr t3"
    and rest: "stage_tests fs L td tcs (?r1\<lparr>tmp := t3\<rparr>) = (None, r')"
    using Cons.prems(1) unfolding tc
    by (auto simp: Let_def split: sum.splits)
  have e: "endswith (path_name inp) ''.in''" "endswith (path_name out) ''.out''"
    using Cons.prems(4) by (simp_all add: tc)
  note one = stage_one_test [OF m c1 c2 Cons.prems(2,3) e]
  obtain es' where d': "get (tmp (?r1\<lparr>tmp := t3\<rparr>)) td = Some (Dir es')"
    using one by auto
  have e': "\<forall>tc \<in> set tcs. endswith (path_name (fst tc)) ''.in''
                         \<and> endswith (path_name (fst (snd tc))) ''.out''"
    using Cons.prems(4) by simp
  note ih = Cons.IH [OF rest d' Cons.prems(3) e']
  have p3: "\<forall>q c. get t3 q = Some (File c) \<longrightarrow> get (tmp r') q = Some (File c)"
    using ih by simp
  show ?case
  proof (intro conjI ballI allI impI)
    fix q c assume "get (tmp r) q = Some (File c)"
    then have "get t3 q = Some (File c)" using one by blast
    then show "get (tmp r') q = Some (File c)" using p3 by blast
  next
    show "tar r' = tar r" using ih by simp
  next
    fix x assume x: "x \<in> set (tc # tcs)"
    show "\<exists>ci co. lookup fs (fst x) = Some (File ci) \<and> lookup fs (fst (snd x)) = Some (File co)
            \<and> get (tmp r') (td @ [snd (snd x), path_name (fst x)]) = Some (File ci)
            \<and> get (tmp r') (td @ [snd (snd x), path_name (fst (snd x))]) = Some (File co)"
    proof (cases "x = tc")
      case True
      obtain ci co where "lookup fs inp = Some (File ci)" "lookup fs out = Some (File co)"
        "get t3 (td @ [name, path_name inp]) = Some (File ci)"
        "get t3 (td @ [name, path_name out]) = Some (File co)"
        using one by blast
      then show ?thesis using p3 True tc by auto
    next
      case False
      then have "x \<in> set tcs" using x by simp
      then show ?thesis using ih by blast
    qed
  qed
qed

lemma mkdir_root:
  assumes "mkdir t (path_join [] L) = Inr t1" and "L \<noteq> ''..''"
  shows "path_join [] L = [L]"
proof (rule ccontr)
  assume "path_join [] L \<noteq> [L]"
  then have "path_join [] L = []" by (auto simp: path_join_def split: if_splits)
  then show False using assms(1) by (simp add: mkdir_def lookup_def)
qed

lemma stage_problem_files:
  assumes sp: "stage_problem fs r L t d inputs outputs st = (None, r')"
    and nL: "L \<noteq> ''..''"
    and en: "\<forall>tc \<in> set (zip inputs (zip outputs st)).
               endswith (path_name (fst tc)) ''.in'' \<and> endswith (path_name (fst (snd tc))) ''.out''"
  shows "\<exists>ms. tar r' = tar r @ ms
           \<and> (\<exists>c. lookup fs d = Some (File c) \<and> ([L, ''description.html''], Some c) \<in> set ms)
           \<and> (\<forall>tc \<in> set (zip inputs (zip outputs st)). \<exists>ci co.
                 lookup fs (fst tc) = Some (File ci) \<and> lookup fs (fst (snd tc)) = Some (File co)
                 \<and> ([L, ''tests'', snd (snd tc), path_name (fst tc)], Some ci) \<in> set ms
                 \<and> ([L, ''tests'', snd (snd tc), path_name (fst (snd tc))], Some co) \<in> set ms)"
proof -
  let ?r1 = "r\<lparr>xmlproblems := new_problem L t (xmlproblems r)\<rparr>"
  let ?pd = "path_join [] L"
  let ?tcs = "zip inputs (zip outputs st)"
  obtain t1 t2 t3 r3 ms where
    m1: "mkdir (tmp r) ?pd = Inr t1"
    and c: "shutil_copy fs d t1 (path_join ?pd ''description.html'') = Inr t2"
    and m2: "mkdir t2 (path_join ?pd ''tests'') = Inr t3"
    and stt: "stage_tests fs L (path_join ?pd ''tests'') ?tcs
               (?r1\<lparr>tmp := t3, xmlproblems := in_last (new_tests L) (xmlproblems ?r1)\<rparr>)
             = (None, r3)"
    and aa: "archive_add (tmp r3) ?pd [L] = Inr ms"
    and r': "tar r' = tar r3 @ ms"
    using sp unfolding stage_problem_def Let_def
    by (auto split: sum.splits prod.splits option.splits)
  have pd: "?pd = [L]" using mkdir_root [OF m1 nL] .
  have jd: "path_join [L] ''description.html'' = [L, ''description.html'']"
    and jt: "path_join [L] ''tests'' = [L, ''tests'']"
    by (simp_all add: path_join_def)
  have nd: "''..'' \<notin> set [L]" "''..'' \<notin> set [L, ''description.html'']"
      "''..'' \<notin> set [L, ''tests'']"
    using nL by auto
  have k1: "get t1 [L] = Some (Dir [])"
    using mkdir_ok [OF m1 [unfolded pd] nd(1)] by blast
  have fd: "get t1 [L, ''description.html''] = None"
    using get_append [of t1 "[L]" "[''description.html'']"] k1 by simp
  obtain cd where cd: "lookup fs d = Some (File cd)"
      "get t2 [L, ''description.html''] = Some (File cd)"
    using copy_ok [OF c [unfolded pd jd] nd(2) _ fd] by auto
  have k3: "get t2 [L, ''tests''] = None" "t3 = put t2 [L, ''tests''] (Dir [])"
      "get t3 [L, ''tests''] = Some (Dir [])"
    using mkdir_ok [OF m2 [unfolded pd jt] nd(3)] by blast+
  have d3: "get t3 [L, ''description.html''] = Some (File cd)"
    unfolding k3(2) using k3(1) cd(2) by (rule get_put_file)
  let ?r2 = "?r1\<lparr>tmp := t3, xmlproblems := in_last (new_tests L) (xmlproblems ?r1)\<rparr>"
  have g2: "get (tmp ?r2) [L, ''tests''] = Some (Dir [])" using k3(3) by simp
  note files = stage_tests_files [OF stt [unfolded pd jt] g2 nd(3) en]
  have tar3: "tar r3 = tar r" using files by simp
  have files3: "\<forall>tc \<in> set ?tcs. \<exists>ci co.
               lookup fs (fst tc) = Some (File ci) \<and> lookup fs (fst (snd tc)) = Some (File co)
               \<and> get (tmp r3) [L, ''tests'', snd (snd tc), path_name (fst tc)] = Some (File ci)
               \<and> get (tmp r3) [L, ''tests'', snd (snd tc), path_name (fst (snd tc))] = Some (File co)"
    using files by simp
  have d4: "get (tmp r3) [L, ''description.html''] = Some (File cd)"
    using files d3 by simp
  obtain N where N: "get (tmp r3) [L] = Some N" and ms: "ms = tar_add [L] N"
    using aa nd(1) by (auto simp: archive_add_def pd lookup_get split: option.splits)
  have sub: "get N q = get (tmp r3) (L # q)" for q
    using get_append [of "tmp r3" "[L]" q] N by simp
  have mem: "([L] @ q, Some x) \<in> set ms" if "get (tmp r3) (L # q) = Some (File x)" for q x
    unfolding ms using that by (intro tar_add_member) (simp add: sub)
  have tests: "\<exists>ci co. lookup fs (fst tc) = Some (File ci) \<and> lookup fs (fst (snd tc)) = Some (File co)
          \<and> ([L, ''tests'', snd (snd tc), path_name (fst tc)], Some ci) \<in> set ms
          \<and> ([L, ''tests'', snd (snd tc), path_name (fst (snd tc))], Some co) \<in> set ms"
    if tcin: "tc \<in> set ?tcs" for tc
  proof -
    obtain ci co where
      "lookup fs (fst tc) = Some (File ci)" "lookup fs (fst (snd tc)) = Some (File co)"
      "get (tmp r3) [L, ''tests'', snd (snd tc), path_name (fst tc)] = Some (File ci)"
      "get (tmp r3) [L, ''tests'', snd (snd tc), path_name (fst (snd tc))] = Some (File co)"
      using files3 [rule_format, OF tcin] by (elim exE conjE)
    then show ?thesis
      using mem [of "[''tests'', snd (snd tc), path_name (fst tc)]" ci]
            mem [of "[''tests'', snd (snd tc), path_name (fst (snd tc))]" co]
      by (intro exI [of _ ci] exI [of _ co]) simp
  qed
  have desc: "([L, ''description.html''], Some cd) \<in> set ms"
    using mem [of "[''description.html'']" cd] d4 by simp
  show ?thesis
  proof (intro exI [of _ ms] conjI)
    show "tar r' = tar r @ ms" by (simp add: r' tar3)
    show "\<exists>c. lookup fs d = Some (File c) \<and> ([L, ''description.html''], Some c) \<in> set ms"
      using cd(1) desc by (intro exI [of _ cd]) simp
    show "\<forall>tc \<in> set ?tcs. \<exists>ci co.
                 lookup fs (fst tc) = Some (File ci) \<and> lookup fs (fst (snd tc)) = Some (File co)
                 \<and> ([L, ''tests'', snd (snd tc), path_name (fst tc)], Some ci) \<in> set ms
                 \<and> ([L, ''tests'', snd (snd tc), path_name (fst (snd tc))], Some co) \<in> set ms"
      by (intro ballI tests)
  qed
qed

lemma sorted_glob_in:
  assumes "q \<in> set (sorted_glob fs d ''.in'')"
  shows "endswith (path_name q) ''.in''"
proof -
  obtain n where n: "endswith n ''.in''" and q: "q = path_join d n"
    using assms by (auto simp: sorted_glob_def glob_star_def)
  have "path_name q = n"
    using endswith_in_name [OF n] by (simp add: q path_join_def path_name_def)
  then show ?thesis using n by simp
qed

lemma sorted_glob_out:
  assumes "q \<in> set (sorted_glob fs d ''.out'')"
  shows "endswith (path_name q) ''.out''"
proof -
  obtain n where n: "endswith n ''.out''" and q: "q = path_join d n"
    using assms by (auto simp: sorted_glob_def glob_star_def)
  have "path_name q = n"
    using endswith_out_name [OF n] by (simp add: q path_join_def path_name_def)
  then show ?thesis using n by simp
qed

lemma tests_of_names:
  assumes "tc \<in> set (tests_of fs p)"
  shows "endswith (path_name (fst tc)) ''.in'' \<and> endswith (path_name (fst (snd tc))) ''.out''"
proof -
  obtain inp out name where tc: "tc = (inp, out, name)" by (cases tc)
  have "inp \<in> set (sorted_glob fs (path_join p ''tests'') ''.in'')"
    using assms unfolding tc tests_of_def by (rule set_zip_leftD)
  moreover have "(out, name) \<in> set (zip (sorted_glob fs (path_join p ''tests'') ''.out'')
                                        (stems (sorted_glob fs (path_join p ''tests'') ''.in'')))"
    using assms unfolding tc tests_of_def by (rule set_zip_rightD)
  then have "out \<in> set (sorted_glob fs (path_join p ''tests'') ''.out'')"
    by (rule set_zip_leftD)
  ultimately show ?thesis
    using sorted_glob_in sorted_glob_out by (simp add: tc)
qed

lemma name_ok_not_dotdot: "name_ok L \<Longrightarrow> L \<noteq> ''..''"
  by (auto simp: name_ok_def ascii_uppercase_def)

lemma archived_mono:
  "archived fs ms p \<Longrightarrow> set ms \<subseteq> set ms' \<Longrightarrow> archived fs ms' p"
  unfolding archived_def by blast

lemma archived_append1: "archived fs ms p \<Longrightarrow> archived fs (ms @ ms') p"
  by (rule archived_mono) auto

lemma archived_append2: "archived fs ms' p \<Longrightarrow> archived fs (ms @ ms') p"
  by (rule archived_mono) auto

lemma process_problem_files:
  assumes acc: "accepted fs p" and pp: "process_problem fs r (p, t) = (None, r')"
  shows "\<exists>ms. tar r' = tar r @ ms \<and> archived fs ms p"
proof -
  let ?L = "path_name p"
  have sp: "stage_problem fs r ?L t (path_join p ''description.html'')
               (sorted_glob fs (path_join p ''tests'') ''.in'')
               (sorted_glob fs (path_join p ''tests'') ''.out'')
               (stems (sorted_glob fs (path_join p ''tests'') ''.in'')) = (None, r')"
    using process_problem_accepted [OF acc, of r t] pp by simp
  have nL: "?L \<noteq> ''..''" using acc by (simp add: accepted_def name_ok_not_dotdot)
  have en: "\<forall>tc \<in> set (zip (sorted_glob fs (path_join p ''tests'') ''.in'')
                            (zip (sorted_glob fs (path_join p ''tests'') ''.out'')
                                 (stems (sorted_glob fs (path_join p ''tests'') ''.in'')))).
               endswith (path_name (fst tc)) ''.in'' \<and> endswith (path_name (fst (snd tc))) ''.out''"
    using tests_of_names [of _ fs p] by (simp add: tests_of_def)
  from stage_problem_files [OF sp nL en] obtain ms where all:
    "tar r' = tar r @ ms
     \<and> (\<exists>c. lookup fs (path_join p ''description.html'') = Some (File c)
              \<and> ([?L, ''description.html''], Some c) \<in> set ms)
     \<and> (\<forall>tc \<in> set (zip (sorted_glob fs (path_join p ''tests'') ''.in'')
                            (zip (sorted_glob fs (path_join p ''tests'') ''.out'')
                                 (stems (sorted_glob fs (path_join p ''tests'') ''.in'')))). \<exists>ci co.
                 lookup fs (fst tc) = Some (File ci) \<and> lookup fs (fst (snd tc)) = Some (File co)
                 \<and> ([?L, ''tests'', snd (snd tc), path_name (fst tc)], Some ci) \<in> set ms
                 \<and> ([?L, ''tests'', snd (snd tc), path_name (fst (snd tc))], Some co) \<in> set ms)"
    ..
  have ms: "tar r' = tar r @ ms" using all by (rule conjunct1)
  have d: "\<exists>c. lookup fs (path_join p ''description.html'') = Some (File c)
                \<and> ([?L, ''description.html''], Some c) \<in> set ms"
    by (rule conjunct1 [OF conjunct2 [OF all]])
  have ts: "\<forall>tc \<in> set (tests_of fs p). \<exists>ci co.
                 lookup fs (fst tc) = Some (File ci) \<and> lookup fs (fst (snd tc)) = Some (File co)
                 \<and> ([?L, ''tests'', snd (snd tc), path_name (fst tc)], Some ci) \<in> set ms
                 \<and> ([?L, ''tests'', snd (snd tc), path_name (fst (snd tc))], Some co) \<in> set ms"
    unfolding tests_of_def by (rule conjunct2 [OF conjunct2 [OF all]])
  have "archived fs ms p"
    unfolding archived_def
  proof (intro conjI ballI)
    show "file_at fs (path_join p ''description.html'') \<noteq> None"
      using d by (auto simp: file_at_def)
    show "([?L, ''description.html''], file_at fs (path_join p ''description.html'')) \<in> set ms"
      using d by (auto simp: file_at_def)
  next
    fix tc assume tcin: "tc \<in> set (tests_of fs p)"
    from ts [rule_format, OF tcin] obtain ci co where
      x: "lookup fs (fst tc) = Some (File ci)" "lookup fs (fst (snd tc)) = Some (File co)"
         "([?L, ''tests'', snd (snd tc), path_name (fst tc)], Some ci) \<in> set ms"
         "([?L, ''tests'', snd (snd tc), path_name (fst (snd tc))], Some co) \<in> set ms"
      by (elim exE conjE)
    show "file_at fs (fst tc) \<noteq> None" using x(1) by (simp add: file_at_def)
    show "file_at fs (fst (snd tc)) \<noteq> None" using x(2) by (simp add: file_at_def)
    show "([?L, ''tests'', snd (snd tc), path_name (fst tc)], file_at fs (fst tc)) \<in> set ms"
      using x(1,3) by (simp add: file_at_def)
    show "([?L, ''tests'', snd (snd tc), path_name (fst (snd tc))], file_at fs (fst (snd tc)))
            \<in> set ms"
      using x(2,4) by (simp add: file_at_def)
  qed
  with ms show ?thesis by blast
qed

lemma run_problems_files:
  assumes "run_problems fs pts r = (None, r')"
  shows "\<exists>ms. tar r' = tar r @ ms \<and> (\<forall>pt \<in> set (survivors fs pts). archived fs ms (fst pt))"
  using assms
proof (induction pts arbitrary: r)
  case Nil
  then show ?case by (simp add: survivors_def)
next
  case (Cons pt pts)
  obtain p t where pt: "pt = (p, t)" by (cases pt)
  obtain r1 where r1: "process_problem fs r (p, t) = (None, r1)"
    and rest: "run_problems fs pts r1 = (None, r')"
    using Cons.prems unfolding pt
    by (auto split: prod.splits option.splits)
  obtain ms2 where ms2: "tar r' = tar r1 @ ms2"
    and a2: "\<forall>pt \<in> set (survivors fs pts). archived fs ms2 (fst pt)"
    using Cons.IH [OF rest] by blast
  show ?case
  proof (cases "accepted fs p")
    case True
    obtain ms1 where ms1: "tar r1 = tar r @ ms1" and a1: "archived fs ms1 p"
      using process_problem_files [OF True r1] by blast
    have "tar r' = tar r @ (ms1 @ ms2)" using ms1 ms2 by simp
    moreover have "\<forall>pt \<in> set (survivors fs ((p, t) # pts)). archived fs (ms1 @ ms2) (fst pt)"
    proof
      fix q assume "q \<in> set (survivors fs ((p, t) # pts))"
      then have "q = (p, t) \<or> q \<in> set (survivors fs pts)"
        using True by (simp add: survivors_def)
      then show "archived fs (ms1 @ ms2) (fst q)"
      proof
        assume "q = (p, t)"
        then show ?thesis using a1 by (simp add: archived_append1)
      next
        assume "q \<in> set (survivors fs pts)"
        then have "archived fs ms2 (fst q)" using a2 by simp
        then show ?thesis by (rule archived_append2)
      qed
    qed
    ultimately show ?thesis unfolding pt by blast
  next
    case False
    have "tar r1 = tar r" using process_problem_rejected [OF False, of r t] r1 by simp
    then have "tar r' = tar r @ ms2" using ms2 by simp
    moreover have "\<forall>pt \<in> set (survivors fs ((p, t) # pts)). archived fs ms2 (fst pt)"
      using a2 False by (simp add: survivors_def)
    ultimately show ?thesis unfolding pt by blast
  qed
qed

lemma staging_block_files:
  assumes "staging_block E fs pts r0 = (None, r)" and "tar r0 = []"
  shows "\<exists>ms. tar r = ms @ [([''Content.xml''],
                               Some (tostring (escape_attrib E) (documented_manifest fs pts)))]
              \<and> (\<forall>pt \<in> set (survivors fs pts). archived fs ms (fst pt))"
proof -
  let ?root = "Element ''Problems'' [(''Presents'', ''radio'')] []"
  define r2 where "r2 = (logging DEBUG (''Using temporary directory: '' @ tmpdir E) r0)
                          \<lparr>xmlproblems := ?root\<rparr>"
  have sb: "staging_block E fs pts r0 =
          (case run_problems fs pts r2 of
             (Some e, r3) \<Rightarrow> (Some e, r3)
           | (None, r3) \<Rightarrow> write_manifest E r3)"
    by (simp add: staging_block_def Let_def root_element r2_def)
  obtain r3 where r3: "run_problems fs pts r2 = (None, r3)" and wm: "write_manifest E r3 = (None, r)"
    using assms(1) unfolding sb by (auto split: prod.splits option.splits)
  have "xmlproblems r2 = Element ''Problems'' [(''Presents'', ''radio'')] []"
    by (simp add: r2_def)
  from run_problems_xml [OF r3 this]
  have x: "xmlproblems r3 = documented_manifest fs pts"
    by (simp add: documented_manifest_def)
  have "tar r2 = []" using assms(2) by (simp add: r2_def logging_def)
  then obtain ms where ms: "tar r3 = ms"
    and a: "\<forall>pt \<in> set (survivors fs pts). archived fs ms (fst pt)"
    using run_problems_files [OF r3] by auto
  show ?thesis
    using write_manifest_ok [OF wm] x ms a by simp
qed


text \<open>
  C7. When \<open>build_archive\<close> returns, the closed archive ends with the member
  \<open>Content.xml\<close>, and before it holds, for every problem that passed the checks, named
  \<open>L\<close>, the member \<open>L/description.html\<close> with the bytes of the source description and,
  for every test case with stem \<open>s\<close>, the members \<open>L/tests/s/\<close> input name and
  \<open>L/tests/s/\<close> output name with the bytes of the source files.
\<close>

theorem archive_contents:
  assumes "fst (build_archive E fs problems timeouts st) = None"
  shows "\<exists>ts ms content.
           fst (resolve_timeouts timeouts (length (discover fs problems))) = Inr ts
           \<and> archivefile (snd (build_archive E fs problems timeouts st))
               = Closed (ms @ [([''Content.xml''], Some content)])
           \<and> (\<forall>pt \<in> set (survivors fs (zip (discover fs problems) ts)). archived fs ms (fst pt))"
proof -
  obtain ts r0 r where f: "fst (resolve_timeouts timeouts (length (discover fs problems))) = Inr ts"
    and r0: "tar r0 = []"
    and sb: "staging_block E fs (zip (discover fs problems) ts) r0 = (None, r)"
    and a: "archivefile (snd (build_archive E fs problems timeouts st)) = Closed (tar r)"
    using build_archive_returns [OF assms] by blast
  from staging_block_files [OF sb r0] obtain ms where
    "tar r = ms @ [([''Content.xml''],
                   Some (tostring (escape_attrib E)
                           (documented_manifest fs (zip (discover fs problems) ts))))]"
    "\<forall>pt \<in> set (survivors fs (zip (discover fs problems) ts)). archived fs ms (fst pt)"
    by blast
  with f a show ?thesis by auto
qed

theorem archive_contents_witness:
  "(\<exists>ts ms content.
     fst (resolve_timeouts (PInt 5) (length (discover fs_two_problems None))) = Inr ts
     \<and> archivefile (snd (build_archive env0 fs_two_problems None (PInt 5) state0))
         = Closed (ms @ [([''Content.xml''], Some content)])
     \<and> (\<forall>pt \<in> set (survivors fs_two_problems (zip (discover fs_two_problems None) ts)).
           archived fs_two_problems ms (fst pt)))
   \<and> members (archivefile (snd (build_archive env0 fs_two_problems None (PInt 5) state0)))
   = [([''A''], None), ([''A'', ''description.html''], Some ''<p>text</p>''),
      ([''A'', ''tests''], None), ([''A'', ''tests'', ''1''], None),
      ([''A'', ''tests'', ''1'', ''1.in''], Some ''3''),
      ([''A'', ''tests'', ''1'', ''1.out''], Some ''9''),
      ([''B''], None), ([''B'', ''description.html''], Some ''<p>text</p>''),
      ([''B'', ''tests''], None), ([''B'', ''tests'', ''1''], None),
      ([''B'', ''tests'', ''1'', ''1.in''], Some ''4''),
      ([''B'', ''tests'', ''1'', ''1.out''], Some ''16''),
      ([''Content.xml''],
       Some (tostring (escape_attrib env0)
               (documented_manifest fs_two_problems (zip (discover fs_two_problems None) [5, 5]))))]"
proof -
  have h: "fst (build_archive env0 fs_two_problems None (PInt 5) state0) = None"
    by code_simp
  have c: "members (archivefile (snd (build_archive env0 fs_two_problems None (PInt 5) state0)))
   = [([''A''], None), ([''A'', ''description.html''], Some ''<p>text</p>''),
      ([''A'', ''tests''], None), ([''A'', ''tests'', ''1''], None),
      ([''A'', ''tests'', ''1'', ''1.in''], Some ''3''),
      ([''A'', ''tests'', ''1'', ''1.out''], Some ''9''),
      ([''B''], None), ([''B'', ''description.html''], Some ''<p>text</p>''),
      ([''B'', ''tests''], None), ([''B'', ''tests'', ''1''], None),
      ([''B'', ''tests'', ''1'', ''1.in''], Some ''4''),
      ([''B'', ''tests'', ''1'', ''1.out''], Some ''16''),
      ([''Content.xml''],
       Some (tostring (escape_attrib env0)
               (documented_manifest fs_two_problems (zip (discover fs_two_problems None) [5, 5]))))]"
    by code_simp
  show ?thesis
  proof (rule conjI)
    show "\<exists>ts ms content.
       fst (resolve_timeouts (PInt 5) (length (discover fs_two_problems None))) = Inr ts
       \<and> archivefile (snd (build_archive env0 fs_two_problems None (PInt 5) state0))
           = Closed (ms @ [([''Content.xml''], Some content)])
       \<and> (\<forall>pt \<in> set (survivors fs_two_problems (zip (discover fs_two_problems None) ts)).
             archived fs_two_problems ms (fst pt))"
      by (rule archive_contents [OF h])
    show "members (archivefile (snd (build_archive env0 fs_two_problems None (PInt 5) state0)))
   = [([''A''], None), ([''A'', ''description.html''], Some ''<p>text</p>''),
      ([''A'', ''tests''], None), ([''A'', ''tests'', ''1''], None),
      ([''A'', ''tests'', ''1'', ''1.in''], Some ''3''),
      ([''A'', ''tests'', ''1'', ''1.out''], Some ''9''),
      ([''B''], None), ([''B'', ''description.html''], Some ''<p>text</p>''),
      ([''B'', ''tests''], None), ([''B'', ''tests'', ''1''], None),
      ([''B'', ''tests'', ''1'', ''1.in''], Some ''4''),
      ([''B'', ''tests'', ''1'', ''1.out''], Some ''16''),
      ([''Content.xml''],
       Some (tostring (escape_attrib env0)
               (documented_manifest fs_two_problems (zip (discover fs_two_problems None) [5, 5]))))]"
      by (rule c)
  qed
qed

section \<open>Independence of the order of supply and of enumeration\<close>

lemma map_of_same:
  assumes "same_tree (Dir es) (Dir es')"
  shows "rel_option same_tree (map_of es x) (map_of es' x)"
proof (cases "x \<in> fst ` set es")
  case True
  have names: "fst ` set es = fst ` set es'" using assms by simp
  have all: "\<forall>e \<in> set es. \<forall>e' \<in> set es'. fst e = fst e' \<longrightarrow> same_tree (snd e) (snd e')"
    using assms by simp
  have "map_of es x \<noteq> None" using True by (simp add: map_of_eq_None_iff)
  then obtain ch where ch: "map_of es x = Some ch" by blast
  have "map_of es' x \<noteq> None" using True names by (simp add: map_of_eq_None_iff)
  then obtain ch' where ch': "map_of es' x = Some ch'" by blast
  have m: "(x, ch) \<in> set es" using ch by (rule map_of_SomeD)
  have m': "(x, ch') \<in> set es'" using ch' by (rule map_of_SomeD)
  have "same_tree (snd (x, ch)) (snd (x, ch'))"
    using all [rule_format, OF m m'] by simp
  then show ?thesis by (simp add: ch ch')
next
  case False
  then have "x \<notin> fst ` set es'" using assms by simp
  then have "map_of es' x = None" by (simp add: map_of_eq_None_iff)
  moreover have "map_of es x = None" using False by (simp add: map_of_eq_None_iff)
  ultimately show ?thesis by simp
qed

lemma walk_same:
  "list_all2 same_tree up up' \<Longrightarrow> same_tree t t'
     \<Longrightarrow> rel_option same_tree (walk up t p) (walk up' t' p)"
proof (induction up t p arbitrary: up' t' rule: walk.induct)
  case (1 up n)
  then show ?case by simp
next
  case (2 up c x xs)
  then show ?case by (cases t') auto
next
  case (3 up es x xs)
  obtain es' where t': "t' = Dir es'" using "3.prems"(2) by (cases t') auto
  show ?case
  proof (cases "x = ''..''")
    case True
    show ?thesis
    proof (cases up)
      case Nil
      then have "up' = []" using "3.prems"(1) by simp
      then show ?thesis using "3.IH"(1) [OF True Nil, of "[]" t'] "3.prems" True Nil t' by simp
    next
      case (Cons a up2)
      then obtain a' up2' where up': "up' = a' # up2'" "same_tree a a'" "list_all2 same_tree up2 up2'"
        using "3.prems"(1) by (cases up') auto
      then show ?thesis using "3.IH"(2) [OF True Cons, of up2' a'] True Cons t' by simp
    qed
  next
    case False
    have rel: "rel_option same_tree (map_of es x) (map_of es' x)"
      using map_of_same "3.prems"(2) t' by blast
    show ?thesis
    proof (cases "map_of es x")
      case None
      then show ?thesis using rel False t' by (cases "map_of es' x") auto
    next
      case (Some ch)
      then obtain ch' where ch': "map_of es' x = Some ch'" "same_tree ch ch'"
        using rel by (cases "map_of es' x") auto
      have "list_all2 same_tree (Dir es # up) (Dir es' # up')"
        using "3.prems" t' by simp
      from "3.IH"(3) [OF False Some this ch'(2)] show ?thesis
        using False Some ch'(1) t' by simp
    qed
  qed
qed

lemma lookup_same:
  assumes "same_tree fs fs'"
  shows "(lookup fs p = None \<and> lookup fs' p = None)
         \<or> (\<exists>c. lookup fs p = Some (File c) \<and> lookup fs' p = Some (File c))
         \<or> (\<exists>es es'. lookup fs p = Some (Dir es) \<and> lookup fs' p = Some (Dir es')
                       \<and> same_tree (Dir es) (Dir es'))"
proof -
  have r: "rel_option same_tree (lookup fs p) (lookup fs' p)"
    using assms by (simp add: lookup_def walk_same)
  show ?thesis
  proof (cases "lookup fs p")
    case None
    then show ?thesis using r by (cases "lookup fs' p") simp_all
  next
    case (Some n)
    then obtain n' where n': "lookup fs' p = Some n'" "same_tree n n'"
      using r by (cases "lookup fs' p") simp_all
    show ?thesis
    proof (cases n)
      case (File c)
      then have "n' = File c" using n'(2) by (cases n') simp_all
      then show ?thesis using Some File n'(1) by simp
    next
      case (Dir es)
      then obtain es' where "n' = Dir es'" using n'(2) by (cases n') simp_all
      then show ?thesis using Some Dir n' by simp
    qed
  qed
qed

lemma is_dir_same: "same_tree fs fs' \<Longrightarrow> is_dir fs p = is_dir fs' p"
  using lookup_same [of fs fs' p] by (auto simp: is_dir_def)

lemma is_file_same: "same_tree fs fs' \<Longrightarrow> is_file fs p = is_file fs' p"
  using lookup_same [of fs fs' p] by (auto simp: is_file_def)

lemma shutil_copy_same:
  "same_tree fs fs' \<Longrightarrow> shutil_copy fs src t dst = shutil_copy fs' src t dst"
  using lookup_same [of fs fs' src] by (auto simp: shutil_copy_def)

lemma listdir_same:
  assumes "same_tree fs fs'"
  shows "mset (listdir fs p) = mset (listdir fs' p)"
proof -
  from lookup_same [OF assms, of p] show ?thesis
  proof (elim disjE exE conjE)
    assume "lookup fs p = None" "lookup fs' p = None"
    then show ?thesis by (simp add: listdir_def)
  next
    fix c assume "lookup fs p = Some (File c)" "lookup fs' p = Some (File c)"
    then show ?thesis by (simp add: listdir_def)
  next
    fix es es'
    assume l: "lookup fs p = Some (Dir es)" "lookup fs' p = Some (Dir es')"
      and s: "same_tree (Dir es) (Dir es')"
    have d: "distinct (map fst es)" "distinct (map fst es')" "set (map fst es) = set (map fst es')"
      using s by auto
    have m: "mset (map fst es) = mset (map fst es')"
      using d(3) set_eq_iff_mset_eq_distinct [OF d(1) d(2)] by blast
    have "listdir fs p = map fst es" "listdir fs' p = map fst es'"
      using l d by (simp_all add: listdir_def)
    then show ?thesis using m by (simp only:)
  qed
qed

lemma sort_mset_eq: "mset xs = mset ys \<Longrightarrow> sort xs = sort ys"
  by (rule properties_for_sort) simp_all

lemma sorted_glob_same:
  assumes "same_tree fs fs'"
  shows "sorted_glob fs d suf = sorted_glob fs' d suf"
proof -
  have "mset (glob_star fs d suf) = mset (glob_star fs' d suf)"
    using listdir_same [OF assms, of d] by (simp add: glob_star_def)
  then show ?thesis unfolding sorted_glob_def by (rule sort_mset_eq)
qed

lemma discover_same:
  assumes "same_tree fs fs'"
  shows "discover fs problems = discover fs' problems"
proof (cases problems)
  case None
  have "is_dir fs = is_dir fs'" using is_dir_same [OF assms] by (simp add: fun_eq_iff)
  moreover have "mset (iterdir fs []) = mset (iterdir fs' [])"
    using listdir_same [OF assms, of "[]"] by (simp add: iterdir_def)
  ultimately have "mset (filter (is_dir fs) (iterdir fs [])) = mset (filter (is_dir fs') (iterdir fs' []))"
    by simp
  then show ?thesis unfolding discover_def None option.case by (rule sort_mset_eq)
next
  case (Some ps)
  then show ?thesis by (simp add: discover_def)
qed

lemma discover_perm: "mset ps = mset ps' \<Longrightarrow> discover fs (Some ps) = discover fs (Some ps')"
  unfolding discover_def option.case by (rule sort_mset_eq)

lemma stage_tests_same:
  assumes "same_tree fs fs'"
  shows "stage_tests fs L td tcs r = stage_tests fs' L td tcs r"
proof (induction tcs arbitrary: r)
  case Nil
  show ?case by simp
next
  case (Cons tc tcs)
  obtain inp out name where tc: "tc = (inp, out, name)" by (cases tc)
  show ?case
    unfolding tc stage_tests.simps shutil_copy_same [OF assms] Cons.IH ..
qed

lemma stage_problem_same:
  assumes "same_tree fs fs'"
  shows "stage_problem fs r L t d inputs outputs st = stage_problem fs' r L t d inputs outputs st"
  unfolding stage_problem_def shutil_copy_same [OF assms] stage_tests_same [OF assms] ..

lemma process_problem_same:
  assumes "same_tree fs fs'"
  shows "process_problem fs r pt = process_problem fs' r pt"
  unfolding process_problem_def is_dir_same [OF assms] is_file_same [OF assms]
    sorted_glob_same [OF assms] stage_problem_same [OF assms] ..

lemma run_problems_same:
  assumes "same_tree fs fs'"
  shows "run_problems fs pts r = run_problems fs' pts r"
  by (induction pts arbitrary: r)
     (simp_all add: process_problem_same [OF assms] split: prod.splits option.splits)

lemma build_archive_same:
  assumes "same_tree fs fs'"
  shows "build_archive E fs problems timeouts st = build_archive E fs' problems timeouts st"
  unfolding build_archive_def staging_block_def discover_same [OF assms]
    run_problems_same [OF assms] ..

lemma build_archive_perm:
  assumes "mset ps = mset ps'"
  shows "build_archive E fs (Some ps) timeouts st = build_archive E fs (Some ps') timeouts st"
  unfolding build_archive_def discover_perm [OF assms] option.case ..

lemma stage_tests_core:
  "same_core r r' \<Longrightarrow>
     fst (stage_tests fs L td tcs r) = fst (stage_tests fs L td tcs r')
     \<and> same_core (snd (stage_tests fs L td tcs r)) (snd (stage_tests fs L td tcs r'))"
proof (induction tcs arbitrary: r r')
  case Nil
  then show ?case by simp
next
  case (Cons tc tcs)
  obtain inp out name where tc: "tc = (inp, out, name)" by (cases tc)
  have eq: "tmp r = tmp r'" "tar r = tar r'" "xmlproblems r = xmlproblems r'"
    using Cons.prems by (simp_all add: same_core_def)
  let ?x = "in_last (in_last (new_test L inp out name)) (xmlproblems r')"
  have step: "same_core (r\<lparr>xmlproblems := ?x, tmp := t3\<rparr>) (r'\<lparr>xmlproblems := ?x, tmp := t3\<rparr>)" for t3
    using eq by (simp add: same_core_def)
  show ?case
    unfolding tc
    using Cons.IH [OF step] eq
    by (simp add: Let_def same_core_def split: sum.splits)
qed

lemma stage_problem_core:
  assumes "same_core r r'"
  shows "fst (stage_problem fs r L t d inputs outputs st)
           = fst (stage_problem fs r' L t d inputs outputs st)
         \<and> same_core (snd (stage_problem fs r L t d inputs outputs st))
                     (snd (stage_problem fs r' L t d inputs outputs st))"
proof -
  have eq: "tmp r = tmp r'" "tar r = tar r'" "xmlproblems r = xmlproblems r'"
    using assms by (simp_all add: same_core_def)
  let ?pd = "path_join [] L"
  let ?x = "in_last (new_tests L) (new_problem L t (xmlproblems r'))"
  show ?thesis
  proof (cases "mkdir (tmp r') ?pd")
    case (Inl e)
    then show ?thesis using eq by (simp add: stage_problem_def Let_def same_core_def)
  next
    case m1: (Inr t1)
    show ?thesis
    proof (cases "shutil_copy fs d t1 (path_join ?pd ''description.html'')")
      case (Inl e)
      then show ?thesis using eq m1 by (simp add: stage_problem_def Let_def same_core_def)
    next
      case c: (Inr t2)
      show ?thesis
      proof (cases "mkdir t2 (path_join ?pd ''tests'')")
        case (Inl e)
        then show ?thesis using eq m1 c by (simp add: stage_problem_def Let_def same_core_def)
      next
        case m2: (Inr t3)
        let ?r2 = "r\<lparr>xmlproblems := new_problem L t (xmlproblems r'), tmp := t3, xmlproblems := ?x\<rparr>"
        let ?r2' = "r'\<lparr>xmlproblems := new_problem L t (xmlproblems r'), tmp := t3, xmlproblems := ?x\<rparr>"
        let ?S = "stage_tests fs L (path_join ?pd ''tests'') (zip inputs (zip outputs st)) ?r2"
        let ?S' = "stage_tests fs L (path_join ?pd ''tests'') (zip inputs (zip outputs st)) ?r2'"
        have "same_core ?r2 ?r2'" using eq by (simp add: same_core_def)
        from stage_tests_core [OF this]
        have S: "fst ?S = fst ?S'" "same_core (snd ?S) (snd ?S')" by blast+
        obtain e3 r3 where s3: "?S = (e3, r3)" by (cases ?S)
        obtain r3' where s3': "?S' = (e3, r3')" using S(1) s3 by (cases ?S') simp
        have c3: "tmp r3 = tmp r3'" "tar r3 = tar r3'" "xmlproblems r3 = xmlproblems r3'"
          using S(2) s3 s3' by (simp_all add: same_core_def)
        have l: "stage_problem fs r L t d inputs outputs st =
                  (case e3 of Some e \<Rightarrow> (Some e, r3)
                   | None \<Rightarrow> (case archive_add (tmp r3) ?pd [L] of
                                 Inl e \<Rightarrow> (Some e, r3)
                               | Inr ms \<Rightarrow> (None, r3\<lparr>tar := tar r3 @ ms\<rparr>)))"
          using eq m1 c m2 s3 by (simp add: stage_problem_def Let_def split: option.splits)
        have l': "stage_problem fs r' L t d inputs outputs st =
                  (case e3 of Some e \<Rightarrow> (Some e, r3')
                   | None \<Rightarrow> (case archive_add (tmp r3') ?pd [L] of
                                 Inl e \<Rightarrow> (Some e, r3')
                               | Inr ms \<Rightarrow> (None, r3'\<lparr>tar := tar r3' @ ms\<rparr>)))"
          using eq m1 c m2 s3' by (simp add: stage_problem_def Let_def split: option.splits)
        show ?thesis
          unfolding l l' using c3
          by (simp add: same_core_def split: option.splits sum.splits)
      qed
    qed
  qed
qed

lemma process_problem_core:
  assumes "same_core r r'"
  shows "fst (process_problem fs r pt) = fst (process_problem fs r' pt)
         \<and> same_core (snd (process_problem fs r pt)) (snd (process_problem fs r' pt))"
proof -
  obtain p t where pt: "pt = (p, t)" by (cases pt)
  have eq: "tmp r = tmp r'" "tar r = tar r'" "xmlproblems r = xmlproblems r'"
    using assms by (simp_all add: same_core_def)
  show ?thesis
    unfolding pt process_problem_def
    using stage_problem_core [OF assms] eq
    by (simp add: Let_def same_core_def ignore_problem_def logging_def)
qed

lemma run_problems_core:
  "same_core r r' \<Longrightarrow>
     fst (run_problems fs pts r) = fst (run_problems fs pts r')
     \<and> same_core (snd (run_problems fs pts r)) (snd (run_problems fs pts r'))"
proof (induction pts arbitrary: r r')
  case Nil
  then show ?case by simp
next
  case (Cons pt pts)
  note pc = process_problem_core [OF Cons.prems, of fs pt]
  obtain e1 r1 where p1: "process_problem fs r pt = (e1, r1)" by (cases "process_problem fs r pt")
  obtain r1' where p1': "process_problem fs r' pt = (e1, r1')"
    using pc p1 by (cases "process_problem fs r' pt") simp
  have sc: "same_core r1 r1'" using pc p1 p1' by simp
  show ?case
  proof (cases e1)
    case None
    then show ?thesis using Cons.IH [OF sc] p1 p1' by simp
  next
    case (Some e)
    then show ?thesis using sc p1 p1' by simp
  qed
qed

lemma write_manifest_core:
  assumes "same_core r r'" and "escape_attrib E' = escape_attrib E" and "readlines E' = readlines E"
  shows "fst (write_manifest E r) = fst (write_manifest E' r')
         \<and> same_core (snd (write_manifest E r)) (snd (write_manifest E' r'))"
proof -
  have eq: "tmp r = tmp r'" "tar r = tar r'" "xmlproblems r = xmlproblems r'"
    using assms(1) by (simp_all add: same_core_def)
  show ?thesis
    using eq assms(2,3)
    by (simp add: write_manifest_def Let_def same_core_def logging_def
             split: sum.splits option.splits node.splits)
qed

lemma staging_block_core:
  assumes "same_core r r'" and "escape_attrib E' = escape_attrib E" and "readlines E' = readlines E"
  shows "fst (staging_block E fs pts r) = fst (staging_block E' fs pts r')
         \<and> same_core (snd (staging_block E fs pts r)) (snd (staging_block E' fs pts r'))"
proof -
  let ?x = "set_attr ''Presents'' ''radio'' (Element ''Problems'' [] [])"
  let ?r2 = "(logging DEBUG (''Using temporary directory: '' @ tmpdir E) r)\<lparr>xmlproblems := ?x\<rparr>"
  let ?r2' = "(logging DEBUG (''Using temporary directory: '' @ tmpdir E') r')\<lparr>xmlproblems := ?x\<rparr>"
  have "same_core ?r2 ?r2'" using assms(1) by (simp add: same_core_def logging_def)
  note rc = run_problems_core [OF this, of fs pts]
  obtain e3 r3 where p: "run_problems fs pts ?r2 = (e3, r3)" by (cases "run_problems fs pts ?r2")
  obtain r3' where p': "run_problems fs pts ?r2' = (e3, r3')"
    using rc p by (cases "run_problems fs pts ?r2'") simp
  have sc: "same_core r3 r3'" using rc p p' by simp
  have l: "staging_block E fs pts r = (case e3 of Some e \<Rightarrow> (Some e, r3) | None \<Rightarrow> write_manifest E r3)"
    using p by (simp add: staging_block_def Let_def split: option.splits)
  have l': "staging_block E' fs pts r' = (case e3 of Some e \<Rightarrow> (Some e, r3') | None \<Rightarrow> write_manifest E' r3')"
    using p' by (simp add: staging_block_def Let_def split: option.splits)
  show ?thesis
    unfolding l l' using sc write_manifest_core [OF sc assms(2,3)]
    by (simp split: option.splits)
qed

lemma build_archive_outcome:
  assumes "fst (resolve_timeouts timeouts (length (discover fs problems))) = Inr ts"
    and "escape_attrib E' = escape_attrib E" and "readlines E' = readlines E"
  shows "outcome (build_archive E' fs problems timeouts st')
           = outcome (build_archive E fs problems timeouts st)"
proof -
  let ?pts = "zip (discover fs problems) ts"
  obtain lg where b: "build_archive E fs problems timeouts st =
           (case staging_block E fs ?pts
                   \<lparr>tmp = Dir [], tar = [], xmlproblems = Element ''Problems'' [] [], logs = lg\<rparr> of
              (Some e, r) \<Rightarrow>
                (Some e, leave_with
                   \<lparr>archivefile = Opened (tar r), staging = Some (tmp r), log = logs r\<rparr>)
            | (None, r) \<Rightarrow>
                (None, leave_with
                   \<lparr>archivefile = Closed (tar r), staging = Some (tmp r), log = logs r\<rparr>))"
    using build_archive_staging [OF assms(1), of E st] by blast
  obtain lg' where b': "build_archive E' fs problems timeouts st' =
           (case staging_block E' fs ?pts
                   \<lparr>tmp = Dir [], tar = [], xmlproblems = Element ''Problems'' [] [], logs = lg'\<rparr> of
              (Some e, r) \<Rightarrow>
                (Some e, leave_with
                   \<lparr>archivefile = Opened (tar r), staging = Some (tmp r), log = logs r\<rparr>)
            | (None, r) \<Rightarrow>
                (None, leave_with
                   \<lparr>archivefile = Closed (tar r), staging = Some (tmp r), log = logs r\<rparr>))"
    using build_archive_staging [OF assms(1), of E' st'] by blast
  let ?r0 = "\<lparr>tmp = Dir [], tar = [], xmlproblems = Element ''Problems'' [] [], logs = lg\<rparr>"
  let ?r0' = "\<lparr>tmp = Dir [], tar = [], xmlproblems = Element ''Problems'' [] [], logs = lg'\<rparr>"
  have "same_core ?r0 ?r0'" by (simp add: same_core_def)
  note sc = staging_block_core [OF this assms(2,3), of fs ?pts]
  obtain e r where s: "staging_block E fs ?pts ?r0 = (e, r)" by (cases "staging_block E fs ?pts ?r0")
  obtain r' where s': "staging_block E' fs ?pts ?r0' = (e, r')"
    using sc s by (cases "staging_block E' fs ?pts ?r0'") simp
  have c: "tar r = tar r'" using sc s s' by (simp add: same_core_def)
  show ?thesis
    unfolding b b' s s' using c
    by (simp add: outcome_def leave_with_def split: option.splits)
qed

lemma sorted_survivors:
  "sorted xs \<Longrightarrow> sorted (map fst (survivors fs (zip xs ys)))"
proof (induction xs arbitrary: ys)
  case Nil
  show ?case by (simp add: survivors_def)
next
  case (Cons x xs)
  show ?case
  proof (cases ys)
    case Nil
    then show ?thesis by (simp add: survivors_def)
  next
    case (Cons y ys')
    have s: "sorted (map fst (survivors fs (zip xs ys')))"
      using Cons.IH Cons.prems by simp
    have "\<forall>q \<in> set (map fst (survivors fs (zip xs ys'))). x \<le> q"
      using Cons.prems by (auto simp: survivors_def dest: set_zip_leftD)
    then show ?thesis using s Cons by (simp add: survivors_def)
  qed
qed

lemma sorted_tests_of: "sorted (map fst (tests_of fs p))"
proof -
  have "sorted (sorted_glob fs (path_join p ''tests'') ''.in'')"
    by (simp add: sorted_glob_def)
  then show ?thesis
    by (simp add: tests_of_def map_fst_zip_take sorted_wrt_take)
qed


text \<open>
  C9, as stated, fails: for the problems \<open>y/A\<close> and \<open>x/B\<close>, where \<open>B\<close> has the tests
  \<open>a\<close> and \<open>a-b\<close>, the manifest lists \<open>B\<close> before \<open>A\<close> (the directories are sorted by
  path) and test \<open>a-b\<close> before test \<open>a\<close> (the test files are sorted by file name, and
  \<open>a-b.in < a.in\<close>), while the sorted names are \<open>A, B\<close> and the sorted stems \<open>a, a-b\<close>.
\<close>

theorem manifest_not_in_stem_order:
  "last (members (archivefile (snd (build_archive env0 fs_unsorted
                                      (Some [[''y'', ''A''], [''x'', ''B'']]) (PInt 1) state0))))
     = ([''Content.xml''],
        Some (tostring (escape_attrib env0)
          (Element ''Problems'' [(''Presents'', ''radio'')]
            [Element ''Problem''
               [(''xml:id'', ''B''), (''Name'', ''B''), (''Title'', ''B''),
                (''Description'', ''description.html''), (''Timeout'', ''1'')]
               [Element ''Tests'' [(''xml:id'', ''B.tests'')]
                 [Element ''Test'' [(''xml:id'', ''B.tests.a-b''), (''input'', ''a-b.in''),
                                    (''output'', ''a-b.out'')] [],
                  Element ''Test'' [(''xml:id'', ''B.tests.a''), (''input'', ''a.in''),
                                    (''output'', ''a.out'')] []]],
             Element ''Problem''
               [(''xml:id'', ''A''), (''Name'', ''A''), (''Title'', ''A''),
                (''Description'', ''description.html''), (''Timeout'', ''1'')]
               [Element ''Tests'' [(''xml:id'', ''A.tests'')]
                 [Element ''Test'' [(''xml:id'', ''A.tests.1''), (''input'', ''1.in''),
                                    (''output'', ''1.out'')] []]]])))
   \<and> sort [''a-b'', ''a''] = [''a'', ''a-b'']
   \<and> sort [''B'', ''A''] = [''A'', ''B'']"
  by code_simp


text \<open>
  C9, amended. The result of \<open>build_archive\<close> does not depend on the order in which
  the directories are supplied nor on the order in which the file system enumerates
  directory entries; a run whose timeouts resolve leaves the same exception, archive and
  staging state whatever the state it started from and the name of its temporary
  directory, so a second run on unchanged inputs writes the same manifest. In the
  manifest of a run that returns, the problems are in the order of their sorted paths
  and the tests of each problem in the order of their sorted input file names.
\<close>

theorem manifest_deterministic:
  "(mset ps = mset ps' \<longrightarrow>
      build_archive E fs (Some ps) timeouts st = build_archive E fs (Some ps') timeouts st)
   \<and> (same_tree fs fs' \<longrightarrow>
        build_archive E fs problems timeouts st = build_archive E fs' problems timeouts st)
   \<and> (fst (resolve_timeouts timeouts (length (discover fs problems))) = Inr ts
        \<and> escape_attrib E' = escape_attrib E \<and> readlines E' = readlines E \<longrightarrow>
        outcome (build_archive E' fs problems timeouts st')
          = outcome (build_archive E fs problems timeouts st))
   \<and> (fst (build_archive E fs problems timeouts st) = None \<longrightarrow>
        (\<exists>us ms. fst (resolve_timeouts timeouts (length (discover fs problems))) = Inr us
           \<and> archivefile (snd (build_archive E fs problems timeouts st))
               = Closed (ms @ [([''Content.xml''],
                   Some (tostring (escape_attrib E)
                           (documented_manifest fs (zip (discover fs problems) us))))])
           \<and> sorted (map fst (survivors fs (zip (discover fs problems) us)))
           \<and> (\<forall>pt \<in> set (survivors fs (zip (discover fs problems) us)).
                 sorted (map fst (tests_of fs (fst pt))))))"
proof (intro conjI impI)
  assume "mset ps = mset ps'"
  then show "build_archive E fs (Some ps) timeouts st = build_archive E fs (Some ps') timeouts st"
    by (rule build_archive_perm)
next
  assume "same_tree fs fs'"
  then show "build_archive E fs problems timeouts st = build_archive E fs' problems timeouts st"
    by (rule build_archive_same)
next
  assume "fst (resolve_timeouts timeouts (length (discover fs problems))) = Inr ts
        \<and> escape_attrib E' = escape_attrib E \<and> readlines E' = readlines E"
  then show "outcome (build_archive E' fs problems timeouts st')
          = outcome (build_archive E fs problems timeouts st)"
    using build_archive_outcome by blast
next
  assume ret: "fst (build_archive E fs problems timeouts st) = None"
  obtain us r0 r where f: "fst (resolve_timeouts timeouts (length (discover fs problems))) = Inr us"
    and sb: "staging_block E fs (zip (discover fs problems) us) r0 = (None, r)"
    and a: "archivefile (snd (build_archive E fs problems timeouts st)) = Closed (tar r)"
    using build_archive_returns [OF ret] by blast
  from staging_block_xml [OF sb] obtain ms where
    ms: "tar r = ms @ [([''Content.xml''],
                   Some (tostring (escape_attrib E)
                           (documented_manifest fs (zip (discover fs problems) us))))]"
    by blast
  have "sorted (discover fs problems)" by (simp add: discover_def)
  then have s1: "sorted (map fst (survivors fs (zip (discover fs problems) us)))"
    by (rule sorted_survivors)
  show "\<exists>us ms. fst (resolve_timeouts timeouts (length (discover fs problems))) = Inr us
           \<and> archivefile (snd (build_archive E fs problems timeouts st))
               = Closed (ms @ [([''Content.xml''],
                   Some (tostring (escape_attrib E)
                           (documented_manifest fs (zip (discover fs problems) us))))])
           \<and> sorted (map fst (survivors fs (zip (discover fs problems) us)))
           \<and> (\<forall>pt \<in> set (survivors fs (zip (discover fs problems) us)).
                 sorted (map fst (tests_of fs (fst pt))))"
    using f a ms s1 sorted_tests_of
    by (intro exI [of _ us] exI [of _ ms]) simp
qed


theorem manifest_deterministic_witness:
  "build_archive env0 fs_two_problems (Some [[''B''], [''A'']]) (PInt 5) state0
     = build_archive env0 fs_two_problems (Some [[''A''], [''B'']]) (PInt 5) state0
   \<and> build_archive env0 fs_two_problems (Some [[''B''], [''A'']]) (PInt 5) state0
       = build_archive env0 fs_two_problems_reordered (Some [[''B''], [''A'']]) (PInt 5) state0
   \<and> outcome (build_archive env1 fs_two_problems (Some [[''B''], [''A'']]) (PInt 5)
                (snd (build_archive env0 fs_two_problems (Some [[''B''], [''A'']]) (PInt 5) state0)))
       = outcome (build_archive env0 fs_two_problems (Some [[''B''], [''A'']]) (PInt 5) state0)
   \<and> (\<exists>us ms. fst (resolve_timeouts (PInt 5)
                       (length (discover fs_two_problems (Some [[''B''], [''A'']])))) = Inr us
         \<and> archivefile (snd (build_archive env0 fs_two_problems (Some [[''B''], [''A'']])
                                (PInt 5) state0))
             = Closed (ms @ [([''Content.xml''],
                 Some (tostring (escape_attrib env0)
                         (documented_manifest fs_two_problems
                            (zip (discover fs_two_problems (Some [[''B''], [''A'']])) us))))])
         \<and> sorted (map fst (survivors fs_two_problems
                               (zip (discover fs_two_problems (Some [[''B''], [''A'']])) us)))
         \<and> (\<forall>pt \<in> set (survivors fs_two_problems
                             (zip (discover fs_two_problems (Some [[''B''], [''A'']])) us)).
               sorted (map fst (tests_of fs_two_problems (fst pt)))))"
proof -
  have h1: "mset [[''B''], [''A'']] = mset [[''A''], [''B'']]"
    by simp
  have h2: "same_tree fs_two_problems fs_two_problems_reordered"
    by code_simp
  have h3: "fst (resolve_timeouts (PInt 5)
                   (length (discover fs_two_problems (Some [[''B''], [''A'']])))) = Inr [5, 5]
            \<and> escape_attrib env1 = escape_attrib env0 \<and> readlines env1 = readlines env0"
    by (simp add: resolve_timeouts_def discover_def env0_def env1_def)
  have h4: "fst (build_archive env0 fs_two_problems (Some [[''B''], [''A'']]) (PInt 5) state0) = None"
    by code_simp
  note t = manifest_deterministic
             [where ps = "[[''B''], [''A'']]" and ps' = "[[''A''], [''B'']]"
                and fs = fs_two_problems and fs' = fs_two_problems_reordered
                and E = env0 and E' = env1 and timeouts = "PInt 5" and st = state0
                and st' = "snd (build_archive env0 fs_two_problems (Some [[''B''], [''A'']])
                                  (PInt 5) state0)"
                and problems = "Some [[''B''], [''A'']]" and ts = "[5, 5]"]
  show ?thesis
  proof (intro conjI)
    show "build_archive env0 fs_two_problems (Some [[''B''], [''A'']]) (PInt 5) state0
            = build_archive env0 fs_two_problems (Some [[''A''], [''B'']]) (PInt 5) state0"
      by (rule mp [OF conjunct1 [OF t] h1])
    show "build_archive env0 fs_two_problems (Some [[''B''], [''A'']]) (PInt 5) state0
            = build_archive env0 fs_two_problems_reordered (Some [[''B''], [''A'']]) (PInt 5) state0"
      by (rule mp [OF conjunct1 [OF conjunct2 [OF t]] h2])
    show "outcome (build_archive env1 fs_two_problems (Some [[''B''], [''A'']]) (PInt 5)
                (snd (build_archive env0 fs_two_problems (Some [[''B''], [''A'']]) (PInt 5) state0)))
       = outcome (build_archive env0 fs_two_problems (Some [[''B''], [''A'']]) (PInt 5) state0)"
      by (rule mp [OF conjunct1 [OF conjunct2 [OF conjunct2 [OF t]]] h3])
    show "\<exists>us ms. fst (resolve_timeouts (PInt 5)
                       (length (discover fs_two_problems (Some [[''B''], [''A'']])))) = Inr us
         \<and> archivefile (snd (build_archive env0 fs_two_problems (Some [[''B''], [''A'']])
                                (PInt 5) state0))
             = Closed (ms @ [([''Content.xml''],
                 Some (tostring (escape_attrib env0)
                         (documented_manifest fs_two_problems
                            (zip (discover fs_two_problems (Some [[''B''], [''A'']])) us))))])
         \<and> sorted (map fst (survivors fs_two_problems
                               (zip (discover fs_two_problems (Some [[''B''], [''A'']])) us)))
         \<and> (\<forall>pt \<in> set (survivors fs_two_problems
                             (zip (discover fs_two_problems (Some [[''B''], [''A'']])) us)).
               sorted (map fst (tests_of fs_two_problems (fst pt))))"
      by (rule mp [OF conjunct2 [OF conjunct2 [OF conjunct2 [OF t]]] h4])
  qed
qed

end
